theory Spec2Isabelle
  imports Complex_Main "HOL-Library.Sublist"
begin


section \<open>JavaScript values as the interview agent sees them\<close>

text \<open>
  Strings are lists of code units; the model covers the code units 0..255. The white space
  of \<open>String.prototype.trim\<close>, of \<open>parseInt\<close> and of the regular expression class
  \<open>\s\<close> is the same set; in the modelled range it is TAB, LF, VT, FF, CR, SPACE and NBSP.
\<close>

definition is_ws :: "char \<Rightarrow> bool" where
  "is_ws c \<longleftrightarrow> c \<in> {CHR 0x09, CHR 0x0A, CHR 0x0B, CHR 0x0C, CHR 0x0D, CHR 0x20, CHR 0xA0}"

definition trim :: "string \<Rightarrow> string" where
  "trim s = rev (dropWhile is_ws (rev (dropWhile is_ws s)))"

definition is_digit :: "char \<Rightarrow> bool" where
  "is_digit c \<longleftrightarrow> (48::nat) \<le> of_char c \<and> of_char c \<le> (57::nat)"

text \<open>The value of a run of decimal digits, most significant first.\<close>

definition digits_val :: "string \<Rightarrow> int" where
  "digits_val ds = foldl (\<lambda>acc c. 10 * acc + (int (of_char c) - 48)) 0 ds"

text \<open>
  The values the program meets are those of parsed JSON, together with \<open>undefined\<close>
  (a missing property), NaN and the infinities.
  A Number is a finite value, NaN or an infinity. Finite values are rationals: every finite
  binary64 value is one, and \<open>Math.round\<close>, \<open>Math.min\<close> and \<open>Math.max\<close> are exact on them.
  The two zeros are not told apart.
\<close>

datatype jsnum = Fin rat | NaN | PosInf | NegInf

datatype jsval =
    Undefined
  | Null
  | Bool bool
  | Num jsnum
  | Str string
  | Arr "jsval list"
  | Obj "(string \<times> jsval) list"

fun join_comma :: "string list \<Rightarrow> string" where
  "join_comma [] = []"
| "join_comma [s] = s"
| "join_comma (s # t # ss) = s @ '','' @ join_comma (t # ss)"

text \<open>
  \<open>String(v)\<close>. The digits the engine prints for a finite Number depend on its binary64
  representation, so that rendering is the parameter \<open>nts\<close>; everything else is as the
  language defines it (an array joins its elements with commas, null and undefined
  elements printing as nothing; a plain object prints as \<open>[object Object]\<close>).
\<close>

fun toString :: "(rat \<Rightarrow> string) \<Rightarrow> jsval \<Rightarrow> string" where
  "toString nts Undefined = ''undefined''"
| "toString nts Null = ''null''"
| "toString nts (Bool b) = (if b then ''true'' else ''false'')"
| "toString nts (Num (Fin r)) = nts r"
| "toString nts (Num NaN) = ''NaN''"
| "toString nts (Num PosInf) = ''Infinity''"
| "toString nts (Num NegInf) = ''-Infinity''"
| "toString nts (Str s) = s"
| "toString nts (Arr xs) =
     join_comma (map (\<lambda>x. if x = Undefined \<or> x = Null then [] else toString nts x) xs)"
| "toString nts (Obj kvs) = ''[object Object]''"

text \<open>
  \<open>parseInt(s, 10)\<close> on a string: leading white space is skipped, one sign is read, then
  the longest run of decimal digits; no digit gives NaN. An integer too large for binary64
  is an infinity; below that bound the integer is kept exact.
\<close>

definition parseInt10 :: "string \<Rightarrow> jsnum" where
  "parseInt10 s =
     (let s1 = dropWhile is_ws s;
          neg = (s1 \<noteq> [] \<and> hd s1 = CHR ''-'');
          s2 = (if s1 \<noteq> [] \<and> (hd s1 = CHR ''-'' \<or> hd s1 = CHR ''+'') then tl s1 else s1);
          z = takeWhile is_digit s2
      in if z = [] then NaN
         else let m = digits_val z
              in if m \<ge> 2 ^ 1024 - 2 ^ 970 then (if neg then NegInf else PosInf)
                 else Fin (of_int (if neg then - m else m)))"

text \<open>\<open>Math.round\<close> on a finite value: the nearest integer, a tie going up.\<close>

definition math_round :: "rat \<Rightarrow> int" where
  "math_round x = \<lfloor>x + 1 / 2\<rfloor>"

text \<open>
  \<open>clampInt(n, min = 1, max = 9)\<close>: \<open>Number.isFinite\<close> holds of finite Numbers only (it
  does not coerce); any other argument goes through \<open>parseInt\<close>, which converts it to a
  string first.
\<close>

definition clampInt :: "(rat \<Rightarrow> string) \<Rightarrow> jsval \<Rightarrow> int \<Rightarrow> int \<Rightarrow> int" where
  "clampInt nts n mn mx =
     (let x = (case n of Num (Fin r) \<Rightarrow> Fin r | _ \<Rightarrow> parseInt10 (toString nts n))
      in case x of
           Fin r \<Rightarrow> max mn (min mx (math_round r))
         | _ \<Rightarrow> mn)"

section \<open>Extracting a JSON object from model output\<close>

definition is_tick :: "char \<Rightarrow> bool" where
  "is_tick c \<longleftrightarrow> c = CHR 0x60"

text \<open>
  The letters \<open>json\<close> under the flag \<open>i\<close>: each position matches the letter in either
  case and nothing else.
\<close>

fun matches_json :: "string \<Rightarrow> bool" where
  "matches_json (c1 # c2 # c3 # c4 # r) \<longleftrightarrow>
     (c1 = CHR ''j'' \<or> c1 = CHR ''J'') \<and> (c2 = CHR ''s'' \<or> c2 = CHR ''S'') \<and>
     (c3 = CHR ''o'' \<or> c3 = CHR ''O'') \<and> (c4 = CHR ''n'' \<or> c4 = CHR ''N'')"
| "matches_json _ \<longleftrightarrow> False"

text \<open>
  \<open>t.replace(/^\s*`{1,3}\s*json\s*/i, "")\<close>. The match is forced: all leading white space,
  then the whole run of backticks, which must be one to three long (after three of a
  longer run the next character is a backtick, and giving one back leaves a backtick where
  white space or \<open>j\<close> is needed), white space, the word, white space.
\<close>

definition strip_fence_json :: "string \<Rightarrow> string" where
  "strip_fence_json t =
     (let r = dropWhile is_ws t;
          n = length (takeWhile is_tick r);
          r2 = dropWhile is_ws (drop n r)
      in if 1 \<le> n \<and> n \<le> 3 \<and> matches_json r2 then dropWhile is_ws (drop 4 r2) else t)"

text \<open>\<open>t.replace(/^\s*`{1,3}\s*/i, "")\<close>: at most three backticks of the run go.\<close>

definition strip_fence_open :: "string \<Rightarrow> string" where
  "strip_fence_open t =
     (let r = dropWhile is_ws t;
          n = length (takeWhile is_tick r)
      in if 1 \<le> n then dropWhile is_ws (drop (min n 3) r) else t)"

text \<open>
  \<open>t.replace(/\s*`{1,3}\s*$/i, "")\<close>, read from the end of the string: trailing white
  space, then the run of backticks before it. The match is the leftmost one that reaches
  the end: with a run of at most three it starts at the white space before the run; with
  a longer run it is the last three backticks and what follows them.
\<close>

definition strip_fence_close :: "string \<Rightarrow> string" where
  "strip_fence_close t =
     (let r = dropWhile is_ws (rev t);
          n = length (takeWhile is_tick r)
      in if n = 0 then t
         else if n \<le> 3 then rev (dropWhile is_ws (drop n r))
         else rev (drop 3 r))"

text \<open>\<open>indexOf\<close> and \<open>lastIndexOf\<close> of a single character; \<open>-1\<close> when it is absent.\<close>

definition indexOf :: "char \<Rightarrow> string \<Rightarrow> int" where
  "indexOf c t = (if c \<in> set t then int (length (takeWhile (\<lambda>x. x \<noteq> c) t)) else - 1)"

definition lastIndexOf :: "char \<Rightarrow> string \<Rightarrow> int" where
  "lastIndexOf c t =
     (if c \<in> set t then int (length t) - 1 - int (length (takeWhile (\<lambda>x. x \<noteq> c) (rev t)))
      else - 1)"

text \<open>\<open>t.slice(a, e)\<close>: a negative index counts from the end, and an empty span is \<open>""\<close>.\<close>

definition slice :: "string \<Rightarrow> int \<Rightarrow> int \<Rightarrow> string" where
  "slice t a e =
     (let len = int (length t);
          from = (if a < 0 then max (len + a) 0 else min a len);
          to = (if e < 0 then max (len + e) 0 else min e len)
      in take (nat (max (to - from) 0)) (drop (nat from) t))"

text \<open>The first four statements of both \<open>cleanJSON\<close> functions: trim, then the three replacements.\<close>

definition strip_fences :: "string \<Rightarrow> string" where
  "strip_fences text = strip_fence_close (strip_fence_open (strip_fence_json (trim text)))"

text \<open>\<open>cleanJSON\<close> of the server.\<close>

definition cleanJSON :: "string \<Rightarrow> string" where
  "cleanJSON text =
     (let t = strip_fences text;
          a = indexOf CHR ''{'' t;
          b = lastIndexOf CHR ''}'' t;
          t' = (if a \<noteq> - 1 \<and> b \<noteq> - 1 \<and> b > a then slice t a (b + 1) else t)
      in trim t')"

text \<open>\<open>cleanJSON\<close> of the assessment module: the same without the test \<open>b > a\<close>.\<close>

definition cleanJSON_assess :: "string \<Rightarrow> string" where
  "cleanJSON_assess text =
     (let t = strip_fences text;
          a = indexOf CHR ''{'' t;
          b = lastIndexOf CHR ''}'' t;
          t' = (if a \<noteq> - 1 \<and> b \<noteq> - 1 then slice t a (b + 1) else t)
      in trim t')"


section \<open>Matrix, scores and results\<close>

text \<open>
  The skills matrix is the configuration file \<open>ai_skills_matrix.json\<close>: a role and the
  skills, each a name with a finite weight.
\<close>

record SkillDefinition =
  name :: string
  weight :: rat

record Matrix =
  role :: string
  skills :: "SkillDefinition list"

text \<open>One entry of a normalized result, with the fields \<open>normalizeAssessorResult\<close> writes.\<close>

record SkillScore =
  skill :: string
  score_1_to_9 :: int
  confidence_low_med_high :: jsval
  assessor_stance :: jsval
  why_this_score :: string
  what_was_missing_for_next_level :: string
  evidence_bullets :: "jsval list"
  risks :: "jsval list"
  followups :: "jsval list"

record AssessmentResult =
  recommendation :: string
  skill_scores :: "SkillScore list"
  exercise_score_1_to_9 :: int
  exercise_why_this_score :: string
  exercise_what_was_missing_for_next_level :: string
  exercise_evidence_bullets :: "jsval list"
  summary :: "jsval list"

section \<open>Scoring\<close>





section \<open>Disagreement between assessors\<close>

record Assessed =
  assessor :: string
  model :: string
  norm :: AssessmentResult

record DisagreementRow =
  row_skill :: string
  row_scores :: "int list"
  row_min :: int
  row_max :: int
  row_spread :: int

record Disagreement =
  rows :: "DisagreementRow list"
  biggest_disagreements :: "DisagreementRow list"

text \<open>
  \<open>Math.min(...scores)\<close> and \<open>Math.max(...scores)\<close>. The list holds one score for each
  result and a row exists only when there is a result, so the empty case is never reached
  from \<open>compareMulti\<close>; it is given the value 0 here.
\<close>

fun math_min :: "int list \<Rightarrow> int" where
  "math_min [] = 0"
| "math_min (x # xs) = fold min xs x"

fun math_max :: "int list \<Rightarrow> int" where
  "math_max [] = 0"
| "math_max (x # xs) = fold max xs x"

text \<open>The score one result gives a skill: that of the first entry with the name, else 1.\<close>

definition score_for :: "string \<Rightarrow> Assessed \<Rightarrow> int" where
  "score_for sk r =
     (case find (\<lambda>x. skill x = sk) (skill_scores (norm r)) of
        Some found \<Rightarrow> score_1_to_9 found
      | None \<Rightarrow> 1)"

definition make_row :: "Assessed list \<Rightarrow> string \<Rightarrow> DisagreementRow" where
  "make_row results sk =
     (let scores = map (score_for sk) results;
          mn = math_min scores;
          mx = math_max scores;
          spread = mx - mn
      in \<lparr>row_skill = sk, row_scores = scores, row_min = mn, row_max = mx, row_spread = spread\<rparr>)"

text \<open>
  \<open>Array.prototype.sort\<close> with a comparator: the sort is stable, so with a consistent
  comparator the result is the one that insertion from the right produces, an element
  going before the first one it does not compare greater than.
\<close>

fun insert_cmp :: "('a \<Rightarrow> 'a \<Rightarrow> int) \<Rightarrow> 'a \<Rightarrow> 'a list \<Rightarrow> 'a list" where
  "insert_cmp cmp x [] = [x]"
| "insert_cmp cmp x (y # ys) = (if cmp x y \<le> 0 then x # y # ys else y # insert_cmp cmp x ys)"

definition js_sort :: "('a \<Rightarrow> 'a \<Rightarrow> int) \<Rightarrow> 'a list \<Rightarrow> 'a list" where
  "js_sort cmp xs = foldr (insert_cmp cmp) xs []"

text \<open>The rows before sorting: \<open>skills.map(...)\<close> over the skills of the first result.\<close>

definition first_skills :: "Assessed list \<Rightarrow> string list" where
  "first_skills results =
     (case results of [] \<Rightarrow> [] | r # _ \<Rightarrow> map skill (skill_scores (norm r)))"

definition compareMulti :: "Assessed list \<Rightarrow> Disagreement" where
  "compareMulti results =
     (let sks = first_skills results;
          rws = map (make_row results) sks;
          sorted_rows = js_sort (\<lambda>a b. row_spread b - row_spread a) rws
      in \<lparr>rows = sorted_rows, biggest_disagreements = take 5 sorted_rows\<rparr>)"

section \<open>Reading untyped model output\<close>

text \<open>
  What the program throws: a \<open>TypeError\<close> for reading a property of \<open>null\<close> or
  \<open>undefined\<close> (it carries the name of the property), and \<open>new Error(msg)\<close>.
\<close>

datatype js_error = TypeError string | Error string

text \<open>
  \<open>v.k\<close> for the property names the program reads from parsed JSON. An object gives the
  value stored under the key, or \<open>undefined\<close>; a boolean, a number, a string or an array
  has none of these names, so it gives \<open>undefined\<close>. Objects are plain data: their keys
  are distinct and do not redefine the conversion to a string.
\<close>

definition js_prop :: "jsval \<Rightarrow> string \<Rightarrow> jsval" where
  "js_prop v k = (case v of Obj kvs \<Rightarrow> (case map_of kvs k of Some x \<Rightarrow> x | None \<Rightarrow> Undefined)
               | _ \<Rightarrow> Undefined)"

definition get_prop :: "jsval \<Rightarrow> string \<Rightarrow> js_error + jsval" where
  "get_prop v k = (case v of Undefined \<Rightarrow> Inl (TypeError k) | Null \<Rightarrow> Inl (TypeError k)
                   | _ \<Rightarrow> Inr (js_prop v k))"

fun truthy :: "jsval \<Rightarrow> bool" where
  "truthy Undefined = False"
| "truthy Null = False"
| "truthy (Bool b) = b"
| "truthy (Num (Fin r)) = (r \<noteq> 0)"
| "truthy (Num NaN) = False"
| "truthy (Num PosInf) = True"
| "truthy (Num NegInf) = True"
| "truthy (Str s) = (s \<noteq> [])"
| "truthy (Arr xs) = True"
| "truthy (Obj kvs) = True"

text \<open>\<open>a || b\<close> and \<open>a ?? b\<close>.\<close>

definition js_or :: "jsval \<Rightarrow> jsval \<Rightarrow> jsval" where
  "js_or a b = (if truthy a then a else b)"

definition nullish :: "jsval \<Rightarrow> jsval \<Rightarrow> jsval" where
  "nullish a b = (if a = Undefined \<or> a = Null then b else a)"

text \<open>\<open>Array.isArray(v) ? v : []\<close> and \<open>Array.isArray(v) ? v.slice(0, n) : []\<close>.\<close>

definition array_or_empty :: "jsval \<Rightarrow> jsval list" where
  "array_or_empty v = (case v of Arr xs \<Rightarrow> xs | _ \<Rightarrow> [])"

definition array_prefix :: "jsval \<Rightarrow> nat \<Rightarrow> jsval list" where
  "array_prefix v n = (case v of Arr xs \<Rightarrow> take n xs | _ \<Rightarrow> [])"

text \<open>\<open>xs.map(f)\<close> where \<open>f\<close> may throw: the first throw ends the map.\<close>

fun map_err :: "('a \<Rightarrow> js_error + 'b) \<Rightarrow> 'a list \<Rightarrow> js_error + 'b list" where
  "map_err f [] = Inr []"
| "map_err f (x # xs) =
     (case f x of Inl e \<Rightarrow> Inl e
      | Inr y \<Rightarrow> (case map_err f xs of Inl e \<Rightarrow> Inl e | Inr ys \<Rightarrow> Inr (y # ys)))"

section \<open>Normalizing an assessor's answer\<close>

text \<open>The pair \<open>[String(x.skill || "").trim(), x]\<close> for one incoming entry.\<close>

definition entry_of :: "(rat \<Rightarrow> string) \<Rightarrow> jsval \<Rightarrow> js_error + (string \<times> jsval)" where
  "entry_of nts x =
     (case get_prop x ''skill'' of Inl e \<Rightarrow> Inl e
      | Inr v \<Rightarrow> Inr (trim (toString nts (js_or v (Str []))), x))"

text \<open>The entry written for a skill the answer does not cover.\<close>

definition default_score :: "string \<Rightarrow> string \<Rightarrow> SkillScore" where
  "default_score nm stanceLabel =
     \<lparr>skill = nm,
      score_1_to_9 = 1,
      confidence_low_med_high = Str ''low'',
      assessor_stance = Str stanceLabel,
      why_this_score = ''Insufficient evidence in transcript/exercise.'',
      what_was_missing_for_next_level =
        ''Provide a concrete example: tools used, steps taken, measurable outcome, validation, and failure handling.'',
      evidence_bullets = [Str ''No evidence captured for this skill.''],
      risks = [Str ''Evidence gap'', Str ''Unverified capability''],
      followups = [Str ''Give a specific example you personally delivered.'',
                   Str ''How did you validate and handle failures?'']\<rparr>"

text \<open>
  The function mapped over the skill names. \<open>m\<close> is the \<open>Map\<close> of the incoming entries;
  \<open>m.get(name)\<close> is \<open>undefined\<close> for a missing key, and \<open>!x\<close> also holds of a stored
  entry that is falsy.
\<close>

definition normalize_skill ::
    "(rat \<Rightarrow> string) \<Rightarrow> (string \<rightharpoonup> jsval) \<Rightarrow> string \<Rightarrow> string \<Rightarrow> SkillScore" where
  "normalize_skill nts m stanceLabel nm =
     (let x = (case m nm of Some y \<Rightarrow> y | None \<Rightarrow> Undefined)
      in if \<not> truthy x then default_score nm stanceLabel
         else
           \<lparr>skill = nm,
            score_1_to_9 = clampInt nts (nullish (js_prop x ''score_1_to_9'') (js_prop x ''score'')) 1 9,
            confidence_low_med_high = js_or (js_prop x ''confidence_low_med_high'') (Str ''medium''),
            assessor_stance = js_or (js_prop x ''assessor_stance'') (Str stanceLabel),
            why_this_score = toString nts (js_or (js_prop x ''why_this_score'') (Str [])),
            what_was_missing_for_next_level =
              toString nts (js_or (js_prop x ''what_was_missing_for_next_level'') (Str [])),
            evidence_bullets = array_prefix (js_prop x ''evidence_bullets'') 3,
            risks = array_prefix (js_prop x ''risks'') 2,
            followups = array_prefix (js_prop x ''followups'') 2\<rparr>)"

text \<open>
  \<open>normalizeAssessorResult\<close>. Reading \<open>raw.skill_scores\<close> throws when \<open>raw\<close> is \<open>null\<close>
  or \<open>undefined\<close>, and building the \<open>Map\<close> throws at the first incoming entry that is;
  after that nothing throws. Of two incoming entries with one key the \<open>Map\<close> keeps the later.
\<close>

definition normalizeAssessorResult ::
    "(rat \<Rightarrow> string) \<Rightarrow> Matrix \<Rightarrow> jsval \<Rightarrow> string \<Rightarrow> js_error + AssessmentResult" where
  "normalizeAssessorResult nts matrix raw stanceLabel =
     (let skillNames = map name (skills matrix)
      in case get_prop raw ''skill_scores'' of
           Inl e \<Rightarrow> Inl e
         | Inr v \<Rightarrow>
             (let incoming = array_or_empty v
              in case map_err (entry_of nts) incoming of
                   Inl e \<Rightarrow> Inl e
                 | Inr entries \<Rightarrow>
                     (let m = map_of (rev entries);
                          scores = map (normalize_skill nts m stanceLabel) skillNames
                      in Inr
                        \<lparr>recommendation =
                           toString nts (js_or (js_prop raw ''recommendation'') (Str ''Lean Hire'')),
                         skill_scores = scores,
                         exercise_score_1_to_9 = clampInt nts (js_prop raw ''exercise_score_1_to_9'') 1 9,
                         exercise_why_this_score =
                           toString nts (js_or (js_prop raw ''exercise_why_this_score'') (Str [])),
                         exercise_what_was_missing_for_next_level =
                           toString nts
                             (js_or (js_prop raw ''exercise_what_was_missing_for_next_level'') (Str [])),
                         exercise_evidence_bullets =
                           array_prefix (js_prop raw ''exercise_evidence_bullets'') 3,
                         summary = array_prefix (js_prop raw ''summary'') 6\<rparr>)))"

section \<open>Calling a model for JSON, with retries\<close>

text \<open>
  \<open>toLowerCase\<close> on the modelled code units: the letters A to Z and the capital letters
  of Latin-1 move to their small forms, everything else stays.
\<close>

definition lower_char :: "char \<Rightarrow> char" where
  "lower_char c =
     (let n = (of_char c :: nat)
      in if (65 \<le> n \<and> n \<le> 90) \<or> (192 \<le> n \<and> n \<le> 222 \<and> n \<noteq> 215) then char_of (n + 32)
         else c)"

definition toLowerCase :: "string \<Rightarrow> string" where
  "toLowerCase s = map lower_char s"

definition str_includes :: "string \<Rightarrow> string \<Rightarrow> bool" where
  "str_includes s sub \<longleftrightarrow> sublist sub s"

text \<open>The classification in the \<open>catch\<close> block.\<close>

definition is_transient :: "string \<Rightarrow> bool" where
  "is_transient msg =
     (let is429 = (str_includes msg ''429'' \<or> str_includes (toLowerCase msg) ''rate limit'')
      in is429 \<or>
         str_includes (toLowerCase msg) ''timeout'' \<or>
         str_includes (toLowerCase msg) ''temporarily'' \<or>
         str_includes (toLowerCase msg) ''fetch failed'' \<or>
         str_includes (toLowerCase msg) ''empty content'')"

text \<open>
  The outside world. A request to \<open>hf.chat.completions.create\<close> either rejects, and
  \<open>Threw msg\<close> carries \<open>String(e?.message || e)\<close> of what it rejected with, or it
  resolves, and \<open>Content s\<close> carries \<open>r?.choices?.[0]?.message?.content || ""\<close>. The
  service is a function of how many requests were made before and of the request.
  \<open>JSON.parse\<close> is a parameter too: it returns a value or the message of its
  \<open>SyntaxError\<close>.
\<close>

datatype chat_result = Threw string | Content string

record chat_request =
  req_model :: string
  req_messages :: "(string \<times> string) list"
  req_temperature :: rat

type_synonym chat_api = "nat \<Rightarrow> chat_request \<Rightarrow> chat_result"

type_synonym json_parse = "string \<Rightarrow> string + jsval"

text \<open>What a call leaves behind: the number of requests made and the delays slept, in order.\<close>

record io =
  requests :: nat
  slept :: "nat list"

definition request :: "chat_api \<Rightarrow> chat_request \<Rightarrow> io \<Rightarrow> chat_result \<times> io" where
  "request api req st = (api (requests st) req, st\<lparr>requests := requests st + 1\<rparr>)"

definition sleep :: "nat \<Rightarrow> io \<Rightarrow> io" where
  "sleep ms st = st\<lparr>slept := slept st @ [ms]\<rparr>"

text \<open>
  The body of the \<open>try\<close> block of one attempt: \<open>Inr\<close> is the value returned, \<open>Inl\<close> the
  message of what was thrown, as the \<open>catch\<close> block reads it.
\<close>

definition try_once ::
    "chat_api \<Rightarrow> json_parse \<Rightarrow> chat_request \<Rightarrow> io \<Rightarrow> (string + jsval) \<times> io" where
  "try_once api parse req st =
     (case request api req st of
        (Threw m, st1) \<Rightarrow> (Inl m, st1)
      | (Content last_text, st1) \<Rightarrow>
          (let cleaned = cleanJSON last_text
           in if cleaned = [] then (Inl ''Model returned empty content.'', st1)
              else case parse cleaned of
                     Inr j \<Rightarrow> (Inr j, st1)
                   | Inl _ \<Rightarrow>
                       (case request api
                               \<lparr>req_model = req_model req,
                                req_messages =
                                  [(''system'', ''Return valid JSON only. No markdown. No backticks.''),
                                   (''user'', ''Fix into valid JSON only:'' @ [CHR 0x0A, CHR 0x0A] @ last_text)],
                                req_temperature = 0\<rparr> st1 of
                          (Threw m, st2) \<Rightarrow> (Inl m, st2)
                        | (Content fixedText, st2) \<Rightarrow>
                            (let fixedClean = cleanJSON fixedText
                             in if fixedClean = []
                                then (Inl ''JSON-fix step returned empty content.'', st2)
                                else case parse fixedClean of
                                       Inr j \<Rightarrow> (Inr j, st2)
                                     | Inl m \<Rightarrow> (Inl m, st2)))))"

text \<open>The \<open>for\<close> loop of \<open>callChatJSON\<close>, from a given attempt with a given delay.\<close>

function callChatJSON_loop ::
    "chat_api \<Rightarrow> json_parse \<Rightarrow> chat_request \<Rightarrow> nat \<Rightarrow> nat \<Rightarrow> nat \<Rightarrow> io
       \<Rightarrow> (js_error + jsval) \<times> io" where
  "callChatJSON_loop api parse req maxAttempts attempt delay st =
     (if attempt \<le> maxAttempts then
        (case try_once api parse req st of
           (Inr j, st1) \<Rightarrow> (Inr j, st1)
         | (Inl msg, st1) \<Rightarrow>
             if attempt = maxAttempts \<or> \<not> is_transient msg then (Inl (Error msg), st1)
             else callChatJSON_loop api parse req maxAttempts (attempt + 1) (min (delay * 2) 5000)
                    (sleep delay st1))
      else (Inl (Error ''callChatJSON failed unexpectedly.''), st))"
  by pat_completeness auto
termination
  by (relation "measure (\<lambda>(api, parse, req, maxAttempts, attempt, delay, st). maxAttempts + 1 - attempt)")
    auto

declare callChatJSON_loop.simps [simp del]

definition callChatJSON ::
    "chat_api \<Rightarrow> json_parse \<Rightarrow> chat_request \<Rightarrow> nat \<Rightarrow> io \<Rightarrow> (js_error + jsval) \<times> io" where
  "callChatJSON api parse req maxAttempts st = callChatJSON_loop api parse req maxAttempts 1 450 st"

section \<open>Sessions and the interview flow\<close>

record QAEntry =
  qa_skill :: string
  qa_question :: string
  qa_answer :: string

text \<open>
  A session as \<open>/api/start\<close> stores it. The plan is the \<open>questions\<close> array of the model's
  answer, whatever its elements are.
\<close>

record Session =
  candidateName :: string
  matrix :: Matrix
  planQuestions :: "jsval list"
  idx :: nat
  transcript :: "QAEntry list"
  followupsLeft :: int
  createdAt :: string

type_synonym registry = "string \<rightharpoonup> Session"

text \<open>
  What a handler sends: status 400 with a message, status 500 with what was caught, or
  the body of a success. The markdown reports of \<open>/api/finish\<close> are renderings of the
  normalized results; the response carries the results themselves.
\<close>

datatype response =
    BadRequest string
  | ServerError js_error
  | Started string jsval
  | Next jsval
  | Done
  | Answered string
  | Finished "AssessmentResult list" Disagreement

text \<open>\<open>xs[i]\<close>: \<open>undefined\<close> past the end.\<close>

definition at_index :: "jsval list \<Rightarrow> nat \<Rightarrow> jsval" where
  "at_index xs i = (if i < length xs then xs ! i else Undefined)"

text \<open>\<open>xs.slice(-n)\<close>: the last \<open>n\<close> elements, all of them when there are fewer.\<close>

definition last_n :: "nat \<Rightarrow> 'a list \<Rightarrow> 'a list" where
  "last_n n xs = drop (length xs - n) xs"

text \<open>
  \<open>decideFollowup\<close>. \<open>maxF\<close> is \<open>MAX_FOLLOWUPS_PER_SKILL\<close>, an integer. \<open>outcome\<close> is
  how the awaited \<open>callChatJSON\<close> ends: the error it throws or the value it returns; the
  skill name and the recent entries go into its prompt only.
\<close>

definition decideFollowup :: "int \<Rightarrow> (js_error + jsval) \<Rightarrow> js_error + (bool \<times> jsval)" where
  "decideFollowup maxF outcome =
     (if maxF = 0 then Inr (False, Null)
      else case outcome of
             Inl e \<Rightarrow> Inl e
           | Inr decision \<Rightarrow>
               (case get_prop decision ''need_followup'' of
                  Inl e \<Rightarrow> Inl e
                | Inr nf \<Rightarrow>
                    (case get_prop decision ''followup_question'' of
                       Inl e \<Rightarrow> Inl e
                     | Inr fq \<Rightarrow> Inr (truthy nf, js_or fq Null))))"

text \<open>The end of the \<open>/api/answer\<close> handler: the cursor moves on and the budget is reset.\<close>

definition advance :: "int \<Rightarrow> registry \<Rightarrow> string \<Rightarrow> Session \<Rightarrow> response \<times> registry" where
  "advance maxF sessions sessionId s =
     (let s' = s\<lparr>idx := idx s + 1, followupsLeft := maxF\<rparr>
      in if idx s' \<ge> length (planQuestions s') then (Done, sessions(sessionId \<mapsto> s'))
         else (Next (at_index (planQuestions s') (idx s')), sessions(sessionId \<mapsto> s')))"

text \<open>
  \<open>POST /api/answer\<close>. The session object is shared with the registry, so every
  assignment to it is an update of the registry, also when the handler ends in \<open>catch\<close>.
\<close>

definition answer_op ::
    "(rat \<Rightarrow> string) \<Rightarrow> int \<Rightarrow> registry \<Rightarrow> string \<Rightarrow> string \<Rightarrow> (js_error + jsval)
       \<Rightarrow> response \<times> registry" where
  "answer_op nts maxF sessions sessionId answer outcome =
     (case sessions sessionId of
        None \<Rightarrow> (BadRequest ''Session not found. Start again.'', sessions)
      | Some s \<Rightarrow>
          (let q = at_index (planQuestions s) (idx s)
           in case get_prop q ''skill'' of
                Inl e \<Rightarrow> (ServerError e, sessions)
              | Inr sk \<Rightarrow>
                  (let skillName = toString nts (js_or sk (Str []));
                       question = toString nts (js_or (js_prop q ''question'') (Str []));
                       s1 = s\<lparr>transcript := transcript s @
                              [\<lparr>qa_skill = skillName, qa_question = question, qa_answer = answer\<rparr>]\<rparr>;
                       recent = last_n 3 (filter (\<lambda>t. qa_skill t = skillName) (transcript s1))
                   in if followupsLeft s1 > 0 \<and> trim answer \<noteq> [] \<and> trim answer \<noteq> ''[SKIPPED]''
                      then (case decideFollowup maxF outcome of
                              Inl e \<Rightarrow> (ServerError e, sessions(sessionId \<mapsto> s1))
                            | Inr (need_followup, followup_question) \<Rightarrow>
                                if need_followup \<and> truthy followup_question
                                then (Next (Obj [(''skill'', Str skillName),
                                                 (''question'', followup_question)]),
                                      sessions(sessionId \<mapsto>
                                        s1\<lparr>followupsLeft := followupsLeft s1 - 1\<rparr>))
                                else advance maxF sessions sessionId s1)
                      else advance maxF sessions sessionId s1)))"

text \<open>
  \<open>POST /api/start\<close>. \<open>loaded\<close> is what \<open>loadMatrix\<close> gives, \<open>outcome\<close> how the
  \<open>callChatJSON\<close> of \<open>buildInterviewPlan\<close> ends, \<open>sessionId\<close> the identifier made from the
  clock and the random generator, \<open>now\<close> the time stamp.
\<close>

definition start_op ::
    "int \<Rightarrow> registry \<Rightarrow> string \<Rightarrow> string \<Rightarrow> string \<Rightarrow> (js_error + Matrix) \<Rightarrow> (js_error + jsval)
       \<Rightarrow> response \<times> registry" where
  "start_op maxF sessions sessionId now nm loaded outcome =
     (case loaded of
        Inl e \<Rightarrow> (ServerError e, sessions)
      | Inr mat \<Rightarrow>
          (case outcome of
             Inl e \<Rightarrow> (ServerError e, sessions)
           | Inr plan \<Rightarrow>
               (case get_prop plan ''questions'' of
                  Inl e \<Rightarrow> (ServerError e, sessions)
                | Inr qs \<Rightarrow>
                    if array_or_empty qs = []
                    then (ServerError (Error ''Interview plan missing questions.''), sessions)
                    else (Started sessionId (at_index (array_or_empty qs) 0),
                          sessions(sessionId \<mapsto>
                            \<lparr>candidateName = (if nm = [] then ''Candidate'' else nm),
                             matrix = mat,
                             planQuestions = array_or_empty qs,
                             idx = 0,
                             transcript = [],
                             followupsLeft = maxF,
                             createdAt = now\<rparr>)))))"

text \<open>
  \<open>POST /api/auto-answer\<close> and \<open>POST /api/auto-exercise\<close>: \<open>outcome\<close> is how the request
  of \<open>callChatText\<close> ends. Neither handler assigns to the session or the registry.
\<close>

definition auto_answer_op :: "registry \<Rightarrow> string \<Rightarrow> chat_result \<Rightarrow> response \<times> registry" where
  "auto_answer_op sessions sessionId outcome =
     (case sessions sessionId of
        None \<Rightarrow> (BadRequest ''Session not found.'', sessions)
      | Some s \<Rightarrow>
          if \<not> truthy (at_index (planQuestions s) (idx s))
          then (BadRequest ''No current question.'', sessions)
          else (case outcome of
                  Threw m \<Rightarrow> (ServerError (Error m), sessions)
                | Content c \<Rightarrow>
                    if trim c = [] then (ServerError (Error ''Model returned empty answer.''), sessions)
                    else (Answered (trim c), sessions)))"

definition auto_exercise_op :: "registry \<Rightarrow> string \<Rightarrow> chat_result \<Rightarrow> response \<times> registry" where
  "auto_exercise_op sessions sessionId outcome =
     (case sessions sessionId of
        None \<Rightarrow> (BadRequest ''Session not found.'', sessions)
      | Some s \<Rightarrow>
          (case outcome of
             Threw m \<Rightarrow> (ServerError (Error m), sessions)
           | Content c \<Rightarrow>
               if trim c = [] then (ServerError (Error ''Model returned empty answer.''), sessions)
               else (Answered (trim c), sessions)))"

text \<open>
  \<open>POST /api/finish\<close>. \<open>out1\<close>, \<open>out2\<close>, \<open>out3\<close> are how the three \<open>callChatJSON\<close>
  calls end, \<open>write_error\<close> the message of what \<open>fs.writeFileSync\<close> throws, if it
  throws. The session is deleted after the file is written, and only then. The model
  names are the defaults of \<open>HF_ASSESS_MODEL_1\<close> to \<open>HF_ASSESS_MODEL_3\<close>.
\<close>

definition finish_op ::
    "(rat \<Rightarrow> string) \<Rightarrow> registry \<Rightarrow> string \<Rightarrow> (js_error + jsval) \<Rightarrow> (js_error + jsval)
       \<Rightarrow> (js_error + jsval) \<Rightarrow> string option \<Rightarrow> response \<times> registry" where
  "finish_op nts sessions sessionId out1 out2 out3 write_error =
     (case sessions sessionId of
        None \<Rightarrow> (BadRequest ''Session not found. Start again.'', sessions)
      | Some s \<Rightarrow>
          (case out1 of Inl e \<Rightarrow> (ServerError e, sessions) | Inr raw1 \<Rightarrow>
          (case out2 of Inl e \<Rightarrow> (ServerError e, sessions) | Inr raw2 \<Rightarrow>
          (case out3 of Inl e \<Rightarrow> (ServerError e, sessions) | Inr raw3 \<Rightarrow>
          (case normalizeAssessorResult nts (matrix s) raw1 ''strict'' of
             Inl e \<Rightarrow> (ServerError e, sessions) | Inr norm1 \<Rightarrow>
          (case normalizeAssessorResult nts (matrix s) raw2 ''diverse'' of
             Inl e \<Rightarrow> (ServerError e, sessions) | Inr norm2 \<Rightarrow>
          (case normalizeAssessorResult nts (matrix s) raw3 ''diverse'' of
             Inl e \<Rightarrow> (ServerError e, sessions) | Inr norm3 \<Rightarrow>
             (let disagreement = compareMulti
                    [\<lparr>assessor = ''A1'', model = ''meta-llama/Llama-3.1-8B-Instruct'', norm = norm1\<rparr>,
                     \<lparr>assessor = ''A2'', model = ''Qwen/Qwen2.5-7B-Instruct'', norm = norm2\<rparr>,
                     \<lparr>assessor = ''A3'', model = ''google/gemma-2-9b-it'', norm = norm3\<rparr>]
              in case write_error of
                   Some m \<Rightarrow> (ServerError (Error m), sessions)
                 | None \<Rightarrow> (Finished [norm1, norm2, norm3] disagreement,
                            sessions(sessionId := None))))))))))"

text \<open>The requests a client can send, each with how its calls to the outside end.\<close>

datatype op =
    Start string string string "js_error + Matrix" "js_error + jsval"
  | Answer string string "js_error + jsval"
  | AutoAnswer string chat_result
  | AutoExercise string chat_result
  | Finish string "js_error + jsval" "js_error + jsval" "js_error + jsval" "string option"

fun step :: "(rat \<Rightarrow> string) \<Rightarrow> int \<Rightarrow> registry \<Rightarrow> op \<Rightarrow> response \<times> registry" where
  "step nts maxF sessions (Start sessionId now nm loaded outcome) =
     start_op maxF sessions sessionId now nm loaded outcome"
| "step nts maxF sessions (Answer sessionId answer outcome) =
     answer_op nts maxF sessions sessionId answer outcome"
| "step nts maxF sessions (AutoAnswer sessionId outcome) = auto_answer_op sessions sessionId outcome"
| "step nts maxF sessions (AutoExercise sessionId outcome) =
     auto_exercise_op sessions sessionId outcome"
| "step nts maxF sessions (Finish sessionId out1 out2 out3 write_error) =
     finish_op nts sessions sessionId out1 out2 out3 write_error"

text \<open>Requests handled one after the other: the responses and the registry at the end.\<close>

fun run :: "(rat \<Rightarrow> string) \<Rightarrow> int \<Rightarrow> registry \<Rightarrow> op list \<Rightarrow> response list \<times> registry" where
  "run nts maxF sessions [] = ([], sessions)"
| "run nts maxF sessions (x # xs) =
     (case step nts maxF sessions x of
        (r, sessions1) \<Rightarrow>
          (case run nts maxF sessions1 xs of (rs, sessions2) \<Rightarrow> (r # rs, sessions2)))"

section \<open>Notions used in the statements\<close>

text \<open>The last closing brace lies before the first opening brace.\<close>

definition braces_reversed :: "string \<Rightarrow> bool" where
  "braces_reversed t \<longleftrightarrow>
     indexOf CHR ''{'' t \<noteq> - 1 \<and> lastIndexOf CHR ''}'' t \<noteq> - 1 \<and>
     lastIndexOf CHR ''}'' t < indexOf CHR ''{'' t"

text \<open>
  The text \<open>t\<close> is \<open>j\<close> with something before it that has no opening brace and something
  after it that has no closing brace.
\<close>

definition wraps :: "string \<Rightarrow> string \<Rightarrow> bool" where
  "wraps j t \<longleftrightarrow> (\<exists>p s. t = p @ j @ s \<and> CHR ''{'' \<notin> set p \<and> CHR ''}'' \<notin> set s)"


text \<open>The rows of \<open>compareMulti\<close> before they are sorted.\<close>

definition built_rows :: "Assessed list \<Rightarrow> DisagreementRow list" where
  "built_rows results = map (make_row results) (first_skills results)"


text \<open>Sample data: an entry with a given skill and score, a result with given entries.\<close>

definition sample_score :: "string \<Rightarrow> int \<Rightarrow> SkillScore" where
  "sample_score n v =
     \<lparr>skill = n, score_1_to_9 = v, confidence_low_med_high = Str ''medium'',
      assessor_stance = Str ''strict'', why_this_score = [],
      what_was_missing_for_next_level = [], evidence_bullets = [], risks = [], followups = []\<rparr>"

definition sample_result :: "SkillScore list \<Rightarrow> Assessed" where
  "sample_result xs =
     \<lparr>assessor = ''A1'', model = ''m'',
      norm = \<lparr>recommendation = ''Hire'', skill_scores = xs, exercise_score_1_to_9 = 5,
              exercise_why_this_score = [], exercise_what_was_missing_for_next_level = [],
              exercise_evidence_bullets = [], summary = []\<rparr>\<rparr>"

definition sample_skills :: "SkillDefinition list" where
  "sample_skills = [\<lparr>name = ''A'', weight = 1\<rparr>, \<lparr>name = ''B'', weight = 1\<rparr>]"

definition sample_matrix :: Matrix where
  "sample_matrix = \<lparr>role = ''engineer'', skills = sample_skills\<rparr>"



text \<open>
  The retry policy as the specification words it. The delay slept after attempt \<open>k\<close>
  fails: the initial 450 ms doubled \<open>k - 1\<close> times, at most 5000 ms.
\<close>

definition backoff_delay :: "nat \<Rightarrow> nat" where
  "backoff_delay k = min (450 * 2 ^ (k - 1)) 5000"

text \<open>
  With \<open>left\<close> attempts left, attempt \<open>k\<close> is made. A value is returned. A transient failure
  with attempts left after this one sleeps and retries; any other failure, and any failure
  of the last attempt, raises its own message.
\<close>

fun retry_spec ::
    "chat_api \<Rightarrow> json_parse \<Rightarrow> chat_request \<Rightarrow> nat \<Rightarrow> nat \<Rightarrow> io \<Rightarrow> (js_error + jsval) \<times> io" where
  "retry_spec api parse req 0 k st = (Inl (Error ''callChatJSON failed unexpectedly.''), st)"
| "retry_spec api parse req (Suc left) k st =
     (case try_once api parse req st of
        (Inr j, st1) \<Rightarrow> (Inr j, st1)
      | (Inl msg, st1) \<Rightarrow>
          if is_transient msg \<and> 0 < left
          then retry_spec api parse req left (k + 1) (sleep (backoff_delay k) st1)
          else (Inl (Error msg), st1))"

text \<open>
  A sample service: the first request fails to connect, the second is refused, the third
  answers with a fenced object. A sample parser that knows the empty object.
\<close>

definition sample_api :: chat_api where
  "sample_api n req =
     (if n = 0 then Threw ''fetch failed''
      else if n = 1 then Threw ''401 Unauthorized''
      else Content ''```json {} ```'')"

definition sample_parse :: json_parse where
  "sample_parse s = (if s = ''{}'' then Inr (Obj []) else Inl ''Unexpected token'')"

definition sample_request :: chat_request where
  "sample_request = \<lparr>req_model = ''m'', req_messages = [(''user'', ''hi'')], req_temperature = 1 / 5\<rparr>"

definition io0 :: io where
  "io0 = \<lparr>requests = 0, slept = []\<rparr>"

text \<open>The session a request names, and whether a request starts a session under a name.\<close>

fun op_session :: "op \<Rightarrow> string" where
  "op_session (Start sessionId now nm loaded outcome) = sessionId"
| "op_session (Answer sessionId answer outcome) = sessionId"
| "op_session (AutoAnswer sessionId outcome) = sessionId"
| "op_session (AutoExercise sessionId outcome) = sessionId"
| "op_session (Finish sessionId out1 out2 out3 write_error) = sessionId"

fun is_start :: "op \<Rightarrow> bool" where
  "is_start (Start sessionId now nm loaded outcome) = True"
| "is_start _ = False"

fun not_found :: "response \<Rightarrow> bool" where
  "not_found (BadRequest m) = (m = ''Session not found. Start again.'' \<or> m = ''Session not found.'')"
| "not_found _ = False"

text \<open>The two bounds of the claim, on every stored session.\<close>

definition bounded :: "registry \<Rightarrow> bool" where
  "bounded sessions \<longleftrightarrow>
     (\<forall>sid s. sessions sid = Some s \<longrightarrow> 0 \<le> followupsLeft s \<and> idx s \<le> length (planQuestions s))"

text \<open>A sample session on a plan of one question, with one follow-up allowed.\<close>

definition sample_session :: Session where
  "sample_session =
     \<lparr>candidateName = ''Ada'', matrix = sample_matrix,
      planQuestions = [Obj [(''skill'', Str ''A''), (''question'', Str ''Q1'')]],
      idx = 0, transcript = [], followupsLeft = 1, createdAt = ''t0''\<rparr>"

section \<open>Properties\<close>



lemma clampInt_bounds:
  assumes le: "mn \<le> mx"
  shows "mn \<le> clampInt nts n mn mx \<and> clampInt nts n mn mx \<le> mx"
proof -
  obtain x where x: "clampInt nts n mn mx =
      (case x of Fin r \<Rightarrow> max mn (min mx (math_round r)) | _ \<Rightarrow> mn)"
    unfolding clampInt_def Let_def by blast
  show ?thesis using le unfolding x by (cases x) simp_all
qed



subsection \<open>The two extraction functions\<close>

lemma mem_dropWhile: "x \<in> set xs \<Longrightarrow> \<not> P x \<Longrightarrow> x \<in> set (dropWhile P xs)"
  by (induction xs) auto

lemma trim_nonempty: "c \<in> set t \<Longrightarrow> \<not> is_ws c \<Longrightarrow> trim t \<noteq> []"
proof -
  assume c: "c \<in> set t" and w: "\<not> is_ws c"
  have "c \<in> set (dropWhile is_ws t)" using c w by (rule mem_dropWhile)
  then have "c \<in> set (rev (dropWhile is_ws t))" by simp
  then have "c \<in> set (dropWhile is_ws (rev (dropWhile is_ws t)))" using w by (rule mem_dropWhile)
  then have "dropWhile is_ws (rev (dropWhile is_ws t)) \<noteq> []"
    by (metis empty_iff empty_set)
  then show ?thesis unfolding trim_def by simp
qed

lemma length_takeWhile_lt: "x \<in> set xs \<Longrightarrow> \<not> P x \<Longrightarrow> length (takeWhile P xs) < length xs"
  by (induction xs) auto

lemma trim_Nil: "trim [] = []"
  by (simp add: trim_def)

lemma indexOf_nth:
  assumes "c \<in> set t"
  shows "0 \<le> indexOf c t \<and> indexOf c t < int (length t) \<and> t ! nat (indexOf c t) = c"
proof -
  have l: "length (takeWhile (\<lambda>x. x \<noteq> c) t) < length t"
    using assms by (intro length_takeWhile_lt [of c]) auto
  from nth_length_takeWhile [OF l] show ?thesis using assms l by (simp add: indexOf_def)
qed

lemma lastIndexOf_nth:
  assumes "c \<in> set t"
  shows "0 \<le> lastIndexOf c t \<and> lastIndexOf c t < int (length t) \<and> t ! nat (lastIndexOf c t) = c"
proof -
  let ?k = "length (takeWhile (\<lambda>x. x \<noteq> c) (rev t))"
  have l: "?k < length (rev t)"
    using assms by (intro length_takeWhile_lt [of c]) auto
  then have l': "?k < length t" by simp
  from nth_length_takeWhile [OF l] have "rev t ! ?k = c" by simp
  then have "t ! (length t - Suc ?k) = c" using l' by (simp add: rev_nth)
  moreover have "nat (lastIndexOf c t) = length t - Suc ?k"
    using assms l' by (simp add: lastIndexOf_def nat_diff_distrib)
  moreover have "0 \<le> lastIndexOf c t \<and> lastIndexOf c t < int (length t)"
    using assms l' by (simp add: lastIndexOf_def)
  ultimately show ?thesis by simp
qed

lemma slice_empty: "0 \<le> a \<Longrightarrow> 0 \<le> e \<Longrightarrow> e \<le> a \<Longrightarrow> slice t a e = []"
  by (simp add: slice_def Let_def)

text \<open>
  C10, as amended. The assessment module's \<open>cleanJSON\<close> returns what the server's returns
  on every input except those whose text, once trimmed and stripped of its fences, has
  both braces with the last closing brace before the first opening brace; on those the
  module returns the empty string and the server a non-empty one.
\<close>

theorem cleanJSON_assess_agrees:
  "cleanJSON_assess text =
     (if braces_reversed (strip_fences text) then [] else cleanJSON text) \<and>
   (braces_reversed (strip_fences text) \<longrightarrow> cleanJSON text \<noteq> [])"
proof -
  let ?t = "strip_fences text"
  let ?a = "indexOf CHR ''{'' ?t"
  let ?b = "lastIndexOf CHR ''}'' ?t"
  show ?thesis
  proof (cases "?a \<noteq> - 1 \<and> ?b \<noteq> - 1")
    case False
    then show ?thesis by (auto simp: cleanJSON_def cleanJSON_assess_def braces_reversed_def Let_def)
  next
    case True
    then have ina: "CHR ''{'' \<in> set ?t" and inb: "CHR ''}'' \<in> set ?t"
      by (auto simp: indexOf_def lastIndexOf_def split: if_splits)
    note A = indexOf_nth [OF ina] and B = lastIndexOf_nth [OF inb]
    have ne: "?a \<noteq> ?b"
    proof
      assume "?a = ?b"
      with A B have "CHR ''{'' = CHR ''}''" by metis
      then show False by simp
    qed
    show ?thesis
    proof (cases "?b > ?a")
      case gt: True
      then show ?thesis using True
        by (simp add: cleanJSON_def cleanJSON_assess_def braces_reversed_def Let_def)
    next
      case ngt: False
      with ne have lt: "?b < ?a" by simp
      have s: "slice ?t ?a (?b + 1) = []"
        using A B lt by (intro slice_empty) auto
      have w: "\<not> is_ws CHR ''{''" by (simp add: is_ws_def)
      have "trim ?t \<noteq> []" using ina w by (rule trim_nonempty)
      then show ?thesis using True lt s
        by (simp add: cleanJSON_def cleanJSON_assess_def braces_reversed_def Let_def trim_Nil)
    qed
  qed
qed

lemmas cleanJSON_eval =
  cleanJSON_def strip_fences_def trim_def is_ws_def strip_fence_json_def
  strip_fence_open_def strip_fence_close_def is_tick_def indexOf_def lastIndexOf_def slice_def
  Let_def

theorem cleanJSON_assess_agrees_witness:
  "braces_reversed (strip_fences ''}{'') \<and> cleanJSON_assess ''}{'' = [] \<and> cleanJSON ''}{'' \<noteq> [] \<and>
   \<not> braces_reversed (strip_fences ''{x}'') \<and> cleanJSON_assess ''{x}'' = cleanJSON ''{x}''"
proof -
  have h: "braces_reversed (strip_fences ''}{'')"
    by (simp add: cleanJSON_eval braces_reversed_def)
  have g: "\<not> braces_reversed (strip_fences ''{x}'')"
    by (simp add: cleanJSON_eval braces_reversed_def)
  show ?thesis
    using h g cleanJSON_assess_agrees [of "''}{''"] cleanJSON_assess_agrees [of "''{x}''"]
    by simp
qed

text \<open>
  C10 as stated fails: on the text of a closing brace followed by an opening brace the
  server returns the text and the assessment module returns the empty string.
\<close>

theorem cleanJSON_assess_differs:
  "cleanJSON ''}{'' = ''}{'' \<and> cleanJSON_assess ''}{'' = [] \<and>
   cleanJSON ''}{'' \<noteq> cleanJSON_assess ''}{''"
  by (simp add: cleanJSON_eval cleanJSON_assess_def)

subsection \<open>Recovering an embedded object\<close>

text \<open>Cutting a prefix without an opening brace off a text that wraps j keeps j wrapped.\<close>

lemma cut_prefix:
  assumes t: "p @ j @ s = q @ t'" and j: "j \<noteq> []" "hd j = c" and q: "c \<notin> set q"
  shows "\<exists>p'. t' = p' @ j @ s \<and> set p' \<subseteq> set p"
proof -
  from t obtain us where "(p = q @ us \<and> us @ j @ s = t') \<or> (p @ us = q \<and> j @ s = us @ t')"
    by (auto simp: append_eq_append_conv2)
  then show ?thesis
  proof
    assume "p = q @ us \<and> us @ j @ s = t'"
    then show ?thesis by auto
  next
    assume h: "p @ us = q \<and> j @ s = us @ t'"
    show ?thesis
    proof (cases us)
      case Nil
      with h show ?thesis by auto
    next
      case (Cons u us')
      with h j have "u = c" by (cases j) auto
      with Cons h q show ?thesis by auto
    qed
  qed
qed

lemma cut_suffix:
  assumes t: "p @ j @ s = t' @ q" and j: "j \<noteq> []" "last j = c" and q: "c \<notin> set q"
  shows "\<exists>s'. t' = p @ j @ s' \<and> set s' \<subseteq> set s"
proof -
  have "rev s @ rev j @ rev p = rev q @ rev t'"
    using arg_cong [OF t, of rev] by simp
  moreover have "rev j \<noteq> []" "hd (rev j) = c" using j by (simp_all add: hd_rev)
  moreover have "c \<notin> set (rev q)" using q by simp
  ultimately obtain s' where s': "rev t' = s' @ rev j @ rev p" "set s' \<subseteq> set (rev s)"
    using cut_prefix [of "rev s" "rev j" "rev p" "rev q" "rev t'" c] by blast
  from arg_cong [OF s'(1), of rev] have "t' = p @ j @ rev s'" by simp
  with s'(2) show ?thesis by auto
qed

lemma dropWhile_cut: "\<not> is_ws c \<Longrightarrow> \<exists>q. t = q @ dropWhile is_ws t \<and> c \<notin> set q"
  by (rule exI [of _ "takeWhile is_ws t"]) (auto dest: set_takeWhileD)

lemma drop_ticks_cut:
  assumes n: "n \<le> length (takeWhile is_tick r)" and c: "\<not> is_tick c"
  shows "\<exists>q. r = q @ drop n r \<and> c \<notin> set q"
proof (rule exI [of _ "take n r"], intro conjI)
  show "r = take n r @ drop n r" by simp
  have "take n r = take n (takeWhile is_tick r)"
    using n by (metis append_eq_conv_conj takeWhile_dropWhile_id take_append take_all_iff
        diff_is_0_eq' take_0 append_Nil2 min.absorb2 take_take)
  then have "set (take n r) \<subseteq> set (takeWhile is_tick r)"
    by (metis set_take_subset)
  then show "c \<notin> set (take n r)"
    using c by (auto dest!: set_takeWhileD simp: subset_iff)
qed

lemma matches_json_cut: "matches_json r \<Longrightarrow> \<exists>q. r = q @ drop 4 r \<and> CHR ''{'' \<notin> set q"
  by (rule exI [of _ "take 4 r"]) (rule matches_json.elims(2), auto)

lemma cut_trans: "t = q1 @ t1 \<Longrightarrow> c \<notin> set q1 \<Longrightarrow> \<exists>q. t1 = q @ t2 \<and> c \<notin> set q
   \<Longrightarrow> \<exists>q. t = q @ t2 \<and> c \<notin> set q"
  by (metis Un_iff append.assoc set_append)

lemma ws_brace: "\<not> is_ws CHR ''{''" "\<not> is_ws CHR ''}''" "\<not> is_tick CHR ''{''" "\<not> is_tick CHR ''}''"
  by (simp_all add: is_ws_def is_tick_def)

lemma strip_fence_json_cut: "\<exists>q. t = q @ strip_fence_json t \<and> CHR ''{'' \<notin> set q"
proof (cases "strip_fence_json t = t")
  case True
  then show ?thesis by (intro exI [of _ "[]"]) simp
next
  case False
  define r where "r = dropWhile is_ws t"
  define n where "n = length (takeWhile is_tick r)"
  define r2 where "r2 = dropWhile is_ws (drop n r)"
  from False have m: "matches_json r2" and n: "n \<le> length (takeWhile is_tick r)"
    and eq: "strip_fence_json t = dropWhile is_ws (drop 4 r2)"
    by (auto simp: strip_fence_json_def Let_def r_def n_def r2_def split: if_splits)
  obtain q1 where 1: "t = q1 @ r" "CHR ''{'' \<notin> set q1"
    unfolding r_def using dropWhile_cut [OF ws_brace(1)] by blast
  obtain q2 where 2: "r = q2 @ drop n r" "CHR ''{'' \<notin> set q2"
    using drop_ticks_cut [OF n ws_brace(3)] by blast
  obtain q3 where 3: "drop n r = q3 @ r2" "CHR ''{'' \<notin> set q3"
    unfolding r2_def using dropWhile_cut [OF ws_brace(1)] by blast
  obtain q4 where 4: "r2 = q4 @ drop 4 r2" "CHR ''{'' \<notin> set q4"
    using matches_json_cut [OF m] by blast
  obtain q5 where 5: "drop 4 r2 = q5 @ strip_fence_json t" "CHR ''{'' \<notin> set q5"
    unfolding eq using dropWhile_cut [OF ws_brace(1)] by blast
  have "t = (q1 @ q2 @ q3 @ q4 @ q5) @ strip_fence_json t"
    using 1(1) 2(1) 3(1) 4(1) 5(1) by (metis append.assoc)
  moreover have "CHR ''{'' \<notin> set (q1 @ q2 @ q3 @ q4 @ q5)"
    using 1(2) 2(2) 3(2) 4(2) 5(2) by simp
  ultimately show ?thesis by blast
qed

lemma strip_fence_open_cut: "\<exists>q. t = q @ strip_fence_open t \<and> CHR ''{'' \<notin> set q"
proof (cases "strip_fence_open t = t")
  case True
  then show ?thesis by (intro exI [of _ "[]"]) simp
next
  case False
  define r where "r = dropWhile is_ws t"
  define n where "n = min (length (takeWhile is_tick r)) 3"
  from False have n: "n \<le> length (takeWhile is_tick r)"
    and eq: "strip_fence_open t = dropWhile is_ws (drop n r)"
    by (auto simp: strip_fence_open_def Let_def r_def n_def split: if_splits)
  obtain q1 where 1: "t = q1 @ r" "CHR ''{'' \<notin> set q1"
    unfolding r_def using dropWhile_cut [OF ws_brace(1)] by blast
  obtain q2 where 2: "r = q2 @ drop n r" "CHR ''{'' \<notin> set q2"
    using drop_ticks_cut [OF n ws_brace(3)] by blast
  obtain q3 where 3: "drop n r = q3 @ strip_fence_open t" "CHR ''{'' \<notin> set q3"
    unfolding eq using dropWhile_cut [OF ws_brace(1)] by blast
  have "t = (q1 @ q2 @ q3) @ strip_fence_open t"
    using 1(1) 2(1) 3(1) by (metis append.assoc)
  moreover have "CHR ''{'' \<notin> set (q1 @ q2 @ q3)"
    using 1(2) 2(2) 3(2) by simp
  ultimately show ?thesis by blast
qed

lemma strip_fence_close_cut: "\<exists>q. t = strip_fence_close t @ q \<and> CHR ''}'' \<notin> set q"
proof (cases "strip_fence_close t = t")
  case True
  then show ?thesis by (intro exI [of _ "[]"]) simp
next
  case False
  define r where "r = dropWhile is_ws (rev t)"
  define n where "n = length (takeWhile is_tick r)"
  obtain q1 where 1: "rev t = q1 @ r" "CHR ''}'' \<notin> set q1"
    unfolding r_def using dropWhile_cut [OF ws_brace(2)] by blast
  have "\<exists>q. r = q @ rev (strip_fence_close t) \<and> CHR ''}'' \<notin> set q"
  proof (cases "n \<le> 3")
    case True
    with False have eq: "rev (strip_fence_close t) = dropWhile is_ws (drop n r)"
      by (auto simp: strip_fence_close_def Let_def r_def n_def split: if_splits)
    obtain q2 where 2: "r = q2 @ drop n r" "CHR ''}'' \<notin> set q2"
      using drop_ticks_cut [OF _ ws_brace(4), of n r] n_def by blast
    obtain q3 where 3: "drop n r = q3 @ rev (strip_fence_close t)" "CHR ''}'' \<notin> set q3"
      unfolding eq using dropWhile_cut [OF ws_brace(2)] by blast
    have "r = (q2 @ q3) @ rev (strip_fence_close t)" using 2(1) 3(1) by (metis append.assoc)
    moreover have "CHR ''}'' \<notin> set (q2 @ q3)" using 2(2) 3(2) by simp
    ultimately show ?thesis by blast
  next
    case gt: False
    then have eq: "rev (strip_fence_close t) = drop 3 r"
      by (auto simp: strip_fence_close_def Let_def r_def n_def split: if_splits)
    have "3 \<le> length (takeWhile is_tick r)" using gt n_def by simp
    from drop_ticks_cut [OF this ws_brace(4)] show ?thesis unfolding eq .
  qed
  then obtain q2 where 2: "r = q2 @ rev (strip_fence_close t)" "CHR ''}'' \<notin> set q2" by blast
  have "rev t = (q1 @ q2) @ rev (strip_fence_close t)" using 1(1) 2(1) by simp
  from arg_cong [OF this, of rev] have "t = strip_fence_close t @ rev (q1 @ q2)" by simp
  moreover have "CHR ''}'' \<notin> set (rev (q1 @ q2))" using 1(2) 2(2) by simp
  ultimately show ?thesis by blast
qed

lemma trim_cut:
  "\<exists>q q'. t = q @ trim t @ q' \<and> CHR ''{'' \<notin> set q \<and> CHR ''}'' \<notin> set q'"
proof -
  obtain q1 where 1: "t = q1 @ dropWhile is_ws t" "CHR ''{'' \<notin> set q1"
    using dropWhile_cut [OF ws_brace(1)] by blast
  obtain q2 where 2: "rev (dropWhile is_ws t) = q2 @ rev (trim t)" "CHR ''}'' \<notin> set q2"
    unfolding trim_def rev_rev_ident using dropWhile_cut [OF ws_brace(2)] by blast
  from arg_cong [OF 2(1), of rev] have "dropWhile is_ws t = trim t @ rev q2" by simp
  with 1(1) have "t = q1 @ trim t @ rev q2" by simp
  moreover have "CHR ''}'' \<notin> set (rev q2)" using 2(2) by simp
  ultimately show ?thesis using 1(2) by blast
qed

lemma wraps_prefix:
  assumes w: "wraps j t" and j: "j \<noteq> []" "hd j = CHR ''{''"
    and c: "\<exists>q. t = q @ t' \<and> CHR ''{'' \<notin> set q"
  shows "wraps j t'"
proof -
  from w obtain p s where t: "t = p @ j @ s" and p: "CHR ''{'' \<notin> set p" and s: "CHR ''}'' \<notin> set s"
    unfolding wraps_def by blast
  from c obtain q where q: "t = q @ t'" "CHR ''{'' \<notin> set q" by blast
  from cut_prefix [OF _ j q(2), of p s t'] t q(1)
  obtain p' where "t' = p' @ j @ s" "set p' \<subseteq> set p" by auto
  with p s show ?thesis unfolding wraps_def by blast
qed

lemma wraps_suffix:
  assumes w: "wraps j t" and j: "j \<noteq> []" "last j = CHR ''}''"
    and c: "\<exists>q. t = t' @ q \<and> CHR ''}'' \<notin> set q"
  shows "wraps j t'"
proof -
  from w obtain p s where t: "t = p @ j @ s" and p: "CHR ''{'' \<notin> set p" and s: "CHR ''}'' \<notin> set s"
    unfolding wraps_def by blast
  from c obtain q where q: "t = t' @ q" "CHR ''}'' \<notin> set q" by blast
  from cut_suffix [OF _ j q(2), of p s t'] t q(1)
  obtain s' where "t' = p @ j @ s'" "set s' \<subseteq> set s" by auto
  with p s show ?thesis unfolding wraps_def by blast
qed

lemma wraps_trim:
  assumes w: "wraps j t" and j: "j \<noteq> []" "hd j = CHR ''{''" "last j = CHR ''}''"
  shows "wraps j (trim t)"
proof -
  obtain q q' where q: "t = q @ trim t @ q'" "CHR ''{'' \<notin> set q" "CHR ''}'' \<notin> set q'"
    using trim_cut by blast
  have "\<exists>r. t = r @ (trim t @ q') \<and> CHR ''{'' \<notin> set r"
    by (rule exI [of _ q], rule conjI, rule q(1), rule q(2))
  with w j(1,2) have 1: "wraps j (trim t @ q')" by (rule wraps_prefix)
  have 2: "\<exists>r. trim t @ q' = trim t @ r \<and> CHR ''}'' \<notin> set r"
    by (rule exI [of _ q'], rule conjI, rule refl, rule q(3))
  from 1 j(1,3) 2 show ?thesis by (rule wraps_suffix)
qed

lemma wraps_strip_fences:
  assumes w: "wraps j t" and j: "j \<noteq> []" "hd j = CHR ''{''" "last j = CHR ''}''"
  shows "wraps j (strip_fences t)"
proof -
  have 1: "wraps j (trim t)" using w j by (rule wraps_trim)
  have 2: "wraps j (strip_fence_json (trim t))"
    using 1 j(1,2) strip_fence_json_cut by (rule wraps_prefix)
  have 3: "wraps j (strip_fence_open (strip_fence_json (trim t)))"
    using 2 j(1,2) strip_fence_open_cut by (rule wraps_prefix)
  show ?thesis unfolding strip_fences_def
    using 3 j(1,3) strip_fence_close_cut by (rule wraps_suffix)
qed

lemma trim_id:
  assumes "j \<noteq> []" "\<not> is_ws (hd j)" "\<not> is_ws (last j)"
  shows "trim j = j"
proof -
  have 1: "dropWhile is_ws j = j" using assms(1,2) by (cases j) auto
  have "rev j \<noteq> []" "\<not> is_ws (hd (rev j))" using assms(1,3) by (simp_all add: hd_rev)
  then have 2: "dropWhile is_ws (rev j) = rev j" by (cases "rev j") auto
  show ?thesis unfolding trim_def 1 2 by simp
qed

lemma takeWhile_neq_append: "c \<notin> set p \<Longrightarrow> takeWhile (\<lambda>x. x \<noteq> c) (p @ c # r) = p"
  by (induction p) auto

lemma slice_middle: "slice (p @ j @ s) (int (length p)) (int (length p) + int (length j)) = j"
proof -
  have "nat (int (length p) + int (length j) - int (length p)) = length j" by simp
  then show ?thesis by (simp add: slice_def Let_def)
qed

lemma wraps_slice:
  assumes w: "wraps j t" and j: "j \<noteq> []" "hd j = CHR ''{''" "last j = CHR ''}''"
  shows "indexOf CHR ''{'' t \<noteq> - 1 \<and> lastIndexOf CHR ''}'' t \<noteq> - 1 \<and>
         lastIndexOf CHR ''}'' t > indexOf CHR ''{'' t \<and>
         slice t (indexOf CHR ''{'' t) (lastIndexOf CHR ''}'' t + 1) = j"
proof -
  from w obtain p s where t: "t = p @ j @ s" and p: "CHR ''{'' \<notin> set p" and s: "CHR ''}'' \<notin> set s"
    unfolding wraps_def by blast
  obtain j' where cj: "j = CHR ''{'' # j'" using j(1,2) by (cases j) auto
  have "j' \<noteq> []" using j(3) cj by auto
  then have len: "2 \<le> length j" using cj by (cases j') auto
  have ina: "CHR ''{'' \<in> set t" using t cj by simp
  have "CHR ''}'' \<in> set j" using j(1,3) last_in_set by force
  then have inb: "CHR ''}'' \<in> set t" using t by simp
  have "t = p @ CHR ''{'' # (j' @ s)" using t cj by simp
  then have tw: "takeWhile (\<lambda>x. x \<noteq> CHR ''{'') t = p"
    using takeWhile_neq_append [OF p] by simp
  have a: "indexOf CHR ''{'' t = int (length p)"
    using ina tw by (simp add: indexOf_def)
  have "rev j \<noteq> []" "hd (rev j) = CHR ''}''" using j(1,3) by (simp_all add: hd_rev)
  then obtain k where rj: "rev j = CHR ''}'' # k" by (cases "rev j") auto
  have "rev t = rev s @ CHR ''}'' # (k @ rev p)" unfolding t using rj by simp
  moreover have "CHR ''}'' \<notin> set (rev s)" using s by simp
  ultimately have tw2: "takeWhile (\<lambda>x. x \<noteq> CHR ''}'') (rev t) = rev s"
    using takeWhile_neq_append [of "CHR ''}''" "rev s"] by simp
  have b: "lastIndexOf CHR ''}'' t = int (length p) + int (length j) - 1"
    using inb tw2 by (simp add: lastIndexOf_def t)
  have sl: "slice t (int (length p)) (int (length p) + int (length j)) = j"
    unfolding t by (rule slice_middle)
  show ?thesis using a b len sl by simp
qed

lemma cleanJSON_wrapped:
  assumes j: "j \<noteq> []" "hd j = CHR ''{''" "last j = CHR ''}''"
    and p: "CHR ''{'' \<notin> set p" and s: "CHR ''}'' \<notin> set s"
  shows "cleanJSON (p @ j @ s) = j"
proof -
  have "wraps j (p @ j @ s)" using p s unfolding wraps_def by blast
  then have "wraps j (strip_fences (p @ j @ s))" using j by (rule wraps_strip_fences)
  from wraps_slice [OF this j] have "cleanJSON (p @ j @ s) = trim j"
    by (simp add: cleanJSON_def Let_def)
  also have "trim j = j" using j by (intro trim_id) (simp_all add: ws_brace)
  finally show ?thesis .
qed

text \<open>
  C4, as amended. For every text \<open>j\<close> that starts with an opening brace and ends with a
  closing brace (every JSON object is one), every text \<open>p\<close> before it without an opening
  brace and every text \<open>s\<close> after it without a closing brace, code fences included,
  \<open>cleanJSON\<close> returns exactly \<open>j\<close>. When the stripped text has no opening brace, no
  closing brace, or its last closing brace is not after its first opening brace,
  \<open>cleanJSON\<close> reports nothing: it returns the stripped text, trimmed.
\<close>

theorem cleanJSON_recovers_object:
  "(j \<noteq> [] \<and> hd j = CHR ''{'' \<and> last j = CHR ''}'' \<and> CHR ''{'' \<notin> set p \<and> CHR ''}'' \<notin> set s
      \<longrightarrow> cleanJSON (p @ j @ s) = j) \<and>
   (\<not> (indexOf CHR ''{'' (strip_fences text) \<noteq> - 1 \<and>
        lastIndexOf CHR ''}'' (strip_fences text) \<noteq> - 1 \<and>
        lastIndexOf CHR ''}'' (strip_fences text) > indexOf CHR ''{'' (strip_fences text))
      \<longrightarrow> cleanJSON text = trim (strip_fences text))"
  using cleanJSON_wrapped [of j p s] by (auto simp: cleanJSON_def Let_def)

theorem cleanJSON_recovers_object_witness:
  "cleanJSON (''```json '' @ ''{\"a\":{\"b\":[1]}}'' @ '' ``` '') = ''{\"a\":{\"b\":[1]}}'' \<and>
   cleanJSON ''` 42 `'' = ''42''"
proof -
  have 1: "''{\"a\":{\"b\":[1]}}'' \<noteq> [] \<and> hd ''{\"a\":{\"b\":[1]}}'' = CHR ''{'' \<and>
      last ''{\"a\":{\"b\":[1]}}'' = CHR ''}'' \<and> CHR ''{'' \<notin> set ''```json '' \<and>
      CHR ''}'' \<notin> set '' ``` ''"
    by simp
  have s: "strip_fences ''` 42 `'' = ''42''" by (simp add: cleanJSON_eval)
  have 2: "\<not> (indexOf CHR ''{'' (strip_fences ''` 42 `'') \<noteq> - 1 \<and>
        lastIndexOf CHR ''}'' (strip_fences ''` 42 `'') \<noteq> - 1 \<and>
        lastIndexOf CHR ''}'' (strip_fences ''` 42 `'') > indexOf CHR ''{'' (strip_fences ''` 42 `''))"
    unfolding s by (simp add: indexOf_def)
  have 3: "trim ''42'' = ''42''" by (simp add: trim_def is_ws_def)
  show ?thesis
    using 1 2 3 s
      cleanJSON_recovers_object [of "''{\"a\":{\"b\":[1]}}''" "''```json ''" "'' ``` ''" "''` 42 `''"]
    by simp
qed

text \<open>
  C4 as stated fails when the surrounding text has a brace of its own: the slice runs from
  the first opening brace of the whole text, so the object is not what comes back.
\<close>

theorem cleanJSON_brace_in_text:
  "cleanJSON (''set {1}: '' @ ''{\"a\":1}'' @ '' ok'') = ''{1}: {\"a\":1}'' \<and>
   cleanJSON (''set {1}: '' @ ''{\"a\":1}'' @ '' ok'') \<noteq> ''{\"a\":1}''"
  by (simp add: cleanJSON_eval)

subsection \<open>The weighted score and the disagreement table\<close>








lemma insert_cmp_insort:
  "insert_cmp (\<lambda>a b. key b - key a) x ys = insort_key (\<lambda>r. - key r) x ys"
  by (induction ys) auto

lemma js_sort_sort_key: "js_sort (\<lambda>a b. key b - key a) xs = sort_key (\<lambda>r. - key r) xs"
proof -
  have "insert_cmp (\<lambda>a b. key b - key a) = insort_key (\<lambda>r. - key r)"
    by (intro ext) (rule insert_cmp_insort)
  then show ?thesis by (simp add: js_sort_def sort_key_def)
qed

lemma js_sort_descending:
  "sorted_wrt (\<lambda>a b. key a \<ge> key b) (js_sort (\<lambda>a b. key b - key a) xs)"
proof -
  have "sorted (map (\<lambda>r. - key r) (sort_key (\<lambda>r. - key r) xs))" by (rule sorted_sort_key)
  then show ?thesis unfolding js_sort_sort_key by (simp add: sorted_map)
qed

lemma js_sort_stable:
  "filter (\<lambda>r. key r = k) (js_sort (\<lambda>a b. key b - key a) xs) = filter (\<lambda>r. key r = k) xs"
proof -
  have "filter (\<lambda>r. - key r = - k) (sort_key (\<lambda>r. - key r) xs) = filter (\<lambda>r. - key r = - k) xs"
    by (rule sort_key_stable)
  then show ?thesis unfolding js_sort_sort_key by simp
qed

lemma math_min_Min: "xs \<noteq> [] \<Longrightarrow> math_min xs = Min (set xs)"
proof (cases xs)
  case (Cons a list)
  then show ?thesis using Min.set_eq_fold [of a list] by simp
qed simp

lemma math_max_Max: "xs \<noteq> [] \<Longrightarrow> math_max xs = Max (set xs)"
proof (cases xs)
  case (Cons a list)
  then show ?thesis using Max.set_eq_fold [of a list] by simp
qed simp

lemma score_for_missing: "sk \<notin> skill ` set (skill_scores (norm r)) \<Longrightarrow> score_for sk r = 1"
proof -
  assume "sk \<notin> skill ` set (skill_scores (norm r))"
  then have "find (\<lambda>x. skill x = sk) (skill_scores (norm r)) = None"
    by (auto simp: find_None_iff)
  then show ?thesis by (simp add: score_for_def)
qed

lemma make_row_fields:
  "row_skill (make_row results sk) = sk \<and>
   row_scores (make_row results sk) = map (score_for sk) results \<and>
   row_spread (make_row results sk) = row_max (make_row results sk) - row_min (make_row results sk) \<and>
   (results \<noteq> [] \<longrightarrow>
      row_min (make_row results sk) = Min (set (map (score_for sk) results)) \<and>
      row_max (make_row results sk) = Max (set (map (score_for sk) results)))"
  by (simp add: make_row_def Let_def math_min_Min math_max_Max)

text \<open>
  C7. The rows of \<open>compareMulti\<close> are the rows built for the skills of the first result,
  in descending order of spread, rows of equal spread in the order they were built; the
  biggest disagreements are the first five rows. A built row has the scores of its skill
  in assessor order, a result without the skill giving 1, their minimum and maximum, and
  the difference of the two as spread.
\<close>

theorem compareMulti_sorted_stable:
  "sorted_wrt (\<lambda>a b. row_spread a \<ge> row_spread b) (rows (compareMulti results)) \<and>
   (\<forall>k. filter (\<lambda>r. row_spread r = k) (rows (compareMulti results)) =
        filter (\<lambda>r. row_spread r = k) (built_rows results)) \<and>
   biggest_disagreements (compareMulti results) = take 5 (rows (compareMulti results)) \<and>
   built_rows results = map (make_row results) (first_skills results) \<and>
   (results \<noteq> [] \<longrightarrow> first_skills results = map skill (skill_scores (norm (hd results)))) \<and>
   row_skill (make_row results sk) = sk \<and>
   row_scores (make_row results sk) = map (score_for sk) results \<and>
   row_spread (make_row results sk) = row_max (make_row results sk) - row_min (make_row results sk) \<and>
   (results \<noteq> [] \<longrightarrow>
      row_min (make_row results sk) = Min (set (map (score_for sk) results)) \<and>
      row_max (make_row results sk) = Max (set (map (score_for sk) results))) \<and>
   (sk \<notin> skill ` set (skill_scores (norm r)) \<longrightarrow> score_for sk r = 1)"
proof -
  have 1: "rows (compareMulti results) = js_sort (\<lambda>a b. row_spread b - row_spread a) (built_rows results)"
    by (simp add: compareMulti_def built_rows_def Let_def)
  have 2: "biggest_disagreements (compareMulti results) = take 5 (rows (compareMulti results))"
    by (simp add: compareMulti_def Let_def)
  have 3: "results \<noteq> [] \<longrightarrow> first_skills results = map skill (skill_scores (norm (hd results)))"
    by (cases results) (simp_all add: first_skills_def)
  have 4: "sorted_wrt (\<lambda>a b. row_spread a \<ge> row_spread b) (rows (compareMulti results))"
    unfolding 1 by (rule js_sort_descending)
  have 5: "\<forall>k. filter (\<lambda>r. row_spread r = k) (rows (compareMulti results)) =
        filter (\<lambda>r. row_spread r = k) (built_rows results)"
    unfolding 1 by (intro allI) (rule js_sort_stable)
  have 6: "built_rows results = map (make_row results) (first_skills results)"
    by (simp add: built_rows_def)
  have 7: "sk \<notin> skill ` set (skill_scores (norm r)) \<longrightarrow> score_for sk r = 1"
    using score_for_missing [of sk r] by blast
  from 4 5 2 6 3 make_row_fields [of results sk] 7 show ?thesis by blast
qed

theorem compareMulti_sorted_stable_witness:
  "[sample_result [sample_score ''A'' 9, sample_score ''B'' 1],
    sample_result [sample_score ''A'' 1],
    sample_result [sample_score ''A'' 5, sample_score ''B'' 5]] \<noteq> [] \<and>
   first_skills [sample_result [sample_score ''A'' 9, sample_score ''B'' 1],
    sample_result [sample_score ''A'' 1],
    sample_result [sample_score ''A'' 5, sample_score ''B'' 5]] = [''A'', ''B''] \<and>
   ''B'' \<notin> skill ` set (skill_scores (norm (sample_result [sample_score ''A'' 1]))) \<and>
   score_for ''B'' (sample_result [sample_score ''A'' 1]) = 1 \<and>
   row_scores (make_row [sample_result [sample_score ''A'' 9, sample_score ''B'' 1],
    sample_result [sample_score ''A'' 1],
    sample_result [sample_score ''A'' 5, sample_score ''B'' 5]] ''B'') = [1, 1, 5] \<and>
   row_max (make_row [sample_result [sample_score ''A'' 9, sample_score ''B'' 1],
    sample_result [sample_score ''A'' 1],
    sample_result [sample_score ''A'' 5, sample_score ''B'' 5]] ''B'') = 5"
proof -
  let ?rs = "[sample_result [sample_score ''A'' 9, sample_score ''B'' 1],
    sample_result [sample_score ''A'' 1],
    sample_result [sample_score ''A'' 5, sample_score ''B'' 5]]"
  have h: "?rs \<noteq> []" by simp
  have g: "''B'' \<notin> skill ` set (skill_scores (norm (sample_result [sample_score ''A'' 1])))"
    by (simp add: sample_result_def sample_score_def)
  have s: "score_for ''B'' (sample_result [sample_score ''A'' 9, sample_score ''B'' 1]) = 1"
      "score_for ''B'' (sample_result [sample_score ''A'' 5, sample_score ''B'' 5]) = 5"
    by (simp_all add: score_for_def sample_result_def sample_score_def)
  show ?thesis
    using h g s compareMulti_sorted_stable [of ?rs "''B''" "sample_result [sample_score ''A'' 1]"]
    by (simp add: sample_result_def sample_score_def)
qed

subsection \<open>The normalizer\<close>

lemma normalize_skill_name: "skill (normalize_skill nts m st nm) = nm"
  by (simp add: normalize_skill_def default_score_def Let_def)

lemma normalize_skill_range:
  "1 \<le> score_1_to_9 (normalize_skill nts m st nm) \<and> score_1_to_9 (normalize_skill nts m st nm) \<le> 9"
  using clampInt_bounds [of 1 9 nts]
  by (simp add: normalize_skill_def default_score_def Let_def)


lemma normalize_Inr:
  assumes "normalizeAssessorResult nts mat raw st = Inr res"
  obtains v entries where "get_prop raw ''skill_scores'' = Inr v"
    and "map_err (entry_of nts) (array_or_empty v) = Inr entries"
    and "skill_scores res = map (normalize_skill nts (map_of (rev entries)) st) (map name (skills mat))"
    and "exercise_score_1_to_9 res = clampInt nts (js_prop raw ''exercise_score_1_to_9'') 1 9"
  using assms unfolding normalizeAssessorResult_def Let_def
  by (auto split: sum.splits)

lemma normalize_complete:
  assumes "normalizeAssessorResult nts mat raw st = Inr res"
  shows "map skill (skill_scores res) = map name (skills mat) \<and>
         (\<forall>s \<in> set (skill_scores res). 1 \<le> score_1_to_9 s \<and> score_1_to_9 s \<le> 9) \<and>
         1 \<le> exercise_score_1_to_9 res \<and> exercise_score_1_to_9 res \<le> 9"
proof -
  from assms obtain v entries where
    s: "skill_scores res = map (normalize_skill nts (map_of (rev entries)) st) (map name (skills mat))"
    and e: "exercise_score_1_to_9 res = clampInt nts (js_prop raw ''exercise_score_1_to_9'') 1 9"
    by (rule normalize_Inr)
  have 1: "map skill (skill_scores res) = map name (skills mat)"
    unfolding s by (simp add: normalize_skill_name comp_def)
  have 2: "\<forall>s \<in> set (skill_scores res). 1 \<le> score_1_to_9 s \<and> score_1_to_9 s \<le> 9"
    unfolding s using normalize_skill_range by auto
  have 3: "1 \<le> exercise_score_1_to_9 res \<and> exercise_score_1_to_9 res \<le> 9"
    unfolding e using clampInt_bounds [of 1 9 nts] by simp
  from 1 2 3 show ?thesis by blast
qed

lemma map_err_total:
  "(\<And>x. x \<in> set xs \<Longrightarrow> \<exists>y. f x = Inr y) \<Longrightarrow> \<exists>ys. map_err f xs = Inr ys"
proof (induction xs)
  case Nil
  then show ?case by simp
next
  case (Cons a xs)
  then obtain y ys where "f a = Inr y" "map_err f xs = Inr ys" by (meson list.set_intros)
  then show ?case by simp
qed

lemma map_err_fst:
  "map_err f xs = Inr ys \<Longrightarrow> length ys = length xs \<and> (\<forall>i < length xs. f (xs ! i) = Inr (ys ! i))"
proof (induction xs arbitrary: ys)
  case Nil
  then show ?case by simp
next
  case (Cons a xs)
  then show ?case by (auto split: sum.splits simp: nth_Cons split: nat.splits)
qed

lemma entry_of_total: "x \<noteq> Null \<Longrightarrow> x \<noteq> Undefined \<Longrightarrow> \<exists>y. entry_of nts x = Inr y"
  by (cases x) (simp_all add: entry_of_def get_prop_def)

lemma normalize_returns:
  assumes "raw \<noteq> Null" "raw \<noteq> Undefined"
    and "\<forall>x \<in> set (array_or_empty (js_prop raw ''skill_scores'')). x \<noteq> Null \<and> x \<noteq> Undefined"
  shows "\<exists>res. normalizeAssessorResult nts mat raw st = Inr res"
proof -
  have g: "get_prop raw ''skill_scores'' = Inr (js_prop raw ''skill_scores'')"
    using assms(1,2) by (cases raw) (simp_all add: get_prop_def)
  obtain entries where
    "map_err (entry_of nts) (array_or_empty (js_prop raw ''skill_scores'')) = Inr entries"
    using map_err_total [of _ "entry_of nts"] entry_of_total assms(3) by meson
  with g show ?thesis by (simp add: normalizeAssessorResult_def Let_def)
qed

text \<open>
  C2. The code does not do this on every input: an answer whose \<open>skill_scores\<close> list has
  a \<open>null\<close> entry makes \<open>normalizeAssessorResult\<close> throw a \<open>TypeError\<close> while it builds
  its \<open>Map\<close>, so no result comes back at all. (Whenever a result does come back it has
  one entry per matrix skill, in matrix order, with every score in 1..9: that is
  \<open>normalize_complete\<close>; and one comes back whenever neither the answer nor an entry of
  its list is \<open>null\<close> or \<open>undefined\<close>: that is \<open>normalize_returns\<close>.)
\<close>

theorem normalize_throws_on_null_entry:
  "normalizeAssessorResult nts mat (Obj [(''skill_scores'', Arr [Null])]) st = Inl (TypeError ''skill'')"
  by (simp add: normalizeAssessorResult_def get_prop_def js_prop_def array_or_empty_def entry_of_def)



subsection \<open>Retries\<close>

lemma backoff_delay_first: "backoff_delay 1 = 450"
  by (simp add: backoff_delay_def)

lemma backoff_delay_next: "1 \<le> k \<Longrightarrow> backoff_delay (k + 1) = min (backoff_delay k * 2) 5000"
proof -
  assume "1 \<le> k"
  then obtain j where k: "k = Suc j" by (cases k) auto
  show ?thesis unfolding backoff_delay_def k by (simp add: min_def)
qed

lemma loop_retry_spec:
  "attempt \<le> maxAttempts \<Longrightarrow> 1 \<le> attempt \<Longrightarrow> delay = backoff_delay attempt \<Longrightarrow>
   callChatJSON_loop api parse req maxAttempts attempt delay st =
     retry_spec api parse req (maxAttempts + 1 - attempt) attempt st"
proof (induction api parse req maxAttempts attempt delay st rule: callChatJSON_loop.induct)
  case (1 api parse req maxAttempts attempt delay st)
  obtain left where left: "maxAttempts + 1 - attempt = Suc left" "left = maxAttempts - attempt"
    using "1.prems"(1) by (simp add: Suc_diff_le)
  obtain r st1 where t: "try_once api parse req st = (r, st1)" by (cases "try_once api parse req st")
  show ?case
  proof (cases r)
    case (Inr j)
    with t left "1.prems" show ?thesis
      by (subst callChatJSON_loop.simps) simp
  next
    case (Inl msg)
    show ?thesis
    proof (cases "attempt = maxAttempts \<or> \<not> is_transient msg")
      case True
      with t Inl left "1.prems" show ?thesis
        by (subst callChatJSON_loop.simps) auto
    next
      case False
      then have lt: "attempt < maxAttempts" and tr: "is_transient msg" using "1.prems"(1) by auto
      have d: "min (delay * 2) 5000 = backoff_delay (attempt + 1)"
        using backoff_delay_next [OF "1.prems"(2)] "1.prems"(3) by simp
      have IH: "callChatJSON_loop api parse req maxAttempts (attempt + 1) (min (delay * 2) 5000)
                  (sleep delay st1) =
                retry_spec api parse req (maxAttempts + 1 - (attempt + 1)) (attempt + 1) (sleep delay st1)"
        using "1.IH" [OF "1.prems"(1) t [symmetric] Inl False] lt d by simp
      have l2: "maxAttempts + 1 - (attempt + 1) = left" using left by simp
      have "callChatJSON_loop api parse req maxAttempts attempt delay st =
            callChatJSON_loop api parse req maxAttempts (attempt + 1) (min (delay * 2) 5000)
                  (sleep delay st1)"
        using t Inl False "1.prems"(1) by (subst callChatJSON_loop.simps) simp
      also note IH
      finally show ?thesis
        using t Inl tr lt left l2 "1.prems"(3) by simp
    qed
  qed
qed

lemma request_io: "request api req st = (r, st1) \<Longrightarrow> slept st1 = slept st \<and> requests st1 = requests st + 1"
  by (auto simp: request_def)

lemma try_once_io:
  assumes "try_once api parse req st = (r, st1)"
  shows "slept st1 = slept st \<and> requests st1 \<le> requests st + 2"
  using assms unfolding try_once_def Let_def
  by (auto split: prod.splits chat_result.splits if_splits sum.splits dest!: request_io)

lemma retry_spec_trace:
  "retry_spec api parse req left k st = (r, st') \<Longrightarrow> 0 < left \<Longrightarrow>
   \<exists>n. n < left \<and> slept st' = slept st @ map backoff_delay [k..<k + n] \<and>
       requests st' \<le> requests st + 2 * (n + 1) \<and>
       (\<forall>msg. r = Inl (Error msg) \<longrightarrow> n + 1 = left \<or> \<not> is_transient msg)"
proof (induction left arbitrary: k st)
  case 0
  then show ?case by simp
next
  case (Suc left)
  obtain r1 st1 where t: "try_once api parse req st = (r1, st1)" by (cases "try_once api parse req st")
  note io = try_once_io [OF t]
  show ?case
  proof (cases r1)
    case (Inr j)
    with t Suc.prems have "r = Inr j" "st' = st1" by auto
    with io show ?thesis by (intro exI [of _ 0]) auto
  next
    case (Inl msg)
    show ?thesis
    proof (cases "is_transient msg \<and> 0 < left")
      case False
      with t Inl Suc.prems have "r = Inl (Error msg)" "st' = st1" by auto
      with io False show ?thesis by (intro exI [of _ 0]) auto
    next
      case True
      with t Inl Suc.prems
      have "retry_spec api parse req left (k + 1) (sleep (backoff_delay k) st1) = (r, st')" by simp
      from Suc.IH [OF this] True obtain n where n: "n < left"
        "slept st' = slept (sleep (backoff_delay k) st1) @ map backoff_delay [k + 1..<k + 1 + n]"
        "requests st' \<le> requests (sleep (backoff_delay k) st1) + 2 * (n + 1)"
        "\<forall>msg. r = Inl (Error msg) \<longrightarrow> n + 1 = left \<or> \<not> is_transient msg"
        by blast
      have "[k..<k + Suc n] = k # [k + 1..<k + 1 + n]" by (simp add: upt_rec)
      then have "slept st' = slept st @ map backoff_delay [k..<k + Suc n]"
        using n(2) io by (simp add: sleep_def)
      moreover have "requests st' \<le> requests st + 2 * (Suc n + 1)"
        using n(3) io by (simp add: sleep_def)
      ultimately show ?thesis using n(1,4) by (intro exI [of _ "Suc n"]) auto
    qed
  qed
qed

text \<open>
  C5. With at least one attempt allowed, \<open>callChatJSON\<close> is the retry policy of the
  specification: a failure whose message has one of the transient marks (429, rate limit,
  timeout, temporarily, fetch failed, empty content) is followed by a sleep and another
  attempt while attempts are left; any other failure, and any failure of the last attempt,
  raises an error with that failure's message and nothing more is tried. The delays slept
  are 450 ms, then twice the one before, at most 5000 ms; fewer delays are slept than
  attempts are allowed, each attempt makes at most two requests, and an error that comes
  out is that of the last allowed attempt or is not transient.
\<close>

theorem callChatJSON_retry_policy:
  "(0 < maxAttempts \<longrightarrow>
      callChatJSON api parse req maxAttempts st = retry_spec api parse req maxAttempts 1 st) \<and>
   (0 < maxAttempts \<and> callChatJSON api parse req maxAttempts st = (r, st') \<longrightarrow>
      (\<exists>n. n < maxAttempts \<and> slept st' = slept st @ map backoff_delay [1..<1 + n] \<and>
           requests st' \<le> requests st + 2 * (n + 1) \<and>
           (\<forall>msg. r = Inl (Error msg) \<longrightarrow> n + 1 = maxAttempts \<or> \<not> is_transient msg))) \<and>
   backoff_delay 1 = 450 \<and>
   (1 \<le> k \<longrightarrow> backoff_delay (k + 1) = min (backoff_delay k * 2) 5000) \<and>
   (is_transient m \<longleftrightarrow>
      sublist ''429'' m \<or> sublist ''rate limit'' (toLowerCase m) \<or>
      sublist ''timeout'' (toLowerCase m) \<or> sublist ''temporarily'' (toLowerCase m) \<or>
      sublist ''fetch failed'' (toLowerCase m) \<or> sublist ''empty content'' (toLowerCase m))"
proof -
  have a: "0 < maxAttempts \<Longrightarrow>
      callChatJSON api parse req maxAttempts st = retry_spec api parse req maxAttempts 1 st"
  proof -
    assume "0 < maxAttempts"
    then have "callChatJSON_loop api parse req maxAttempts 1 450 st =
        retry_spec api parse req (maxAttempts + 1 - 1) 1 st"
      by (intro loop_retry_spec) (simp_all add: backoff_delay_def)
    then show ?thesis by (simp add: callChatJSON_def)
  qed
  have b: "0 < maxAttempts \<and> callChatJSON api parse req maxAttempts st = (r, st') \<longrightarrow>
      (\<exists>n. n < maxAttempts \<and> slept st' = slept st @ map backoff_delay [1..<1 + n] \<and>
           requests st' \<le> requests st + 2 * (n + 1) \<and>
           (\<forall>msg. r = Inl (Error msg) \<longrightarrow> n + 1 = maxAttempts \<or> \<not> is_transient msg))"
  proof (intro impI, elim conjE)
    assume m: "0 < maxAttempts" and c: "callChatJSON api parse req maxAttempts st = (r, st')"
    from a [OF m] c have "retry_spec api parse req maxAttempts 1 st = (r, st')" by simp
    from retry_spec_trace [OF this m]
    show "\<exists>n. n < maxAttempts \<and> slept st' = slept st @ map backoff_delay [1..<1 + n] \<and>
           requests st' \<le> requests st + 2 * (n + 1) \<and>
           (\<forall>msg. r = Inl (Error msg) \<longrightarrow> n + 1 = maxAttempts \<or> \<not> is_transient msg)" .
  qed
  have c: "is_transient m \<longleftrightarrow>
      sublist ''429'' m \<or> sublist ''rate limit'' (toLowerCase m) \<or>
      sublist ''timeout'' (toLowerCase m) \<or> sublist ''temporarily'' (toLowerCase m) \<or>
      sublist ''fetch failed'' (toLowerCase m) \<or> sublist ''empty content'' (toLowerCase m)"
    by (simp add: is_transient_def str_includes_def Let_def)
  from a b c backoff_delay_first backoff_delay_next [of k] show ?thesis by blast
qed

theorem callChatJSON_retry_policy_witness:
  "(0::nat) < 3 \<and>
   callChatJSON sample_api sample_parse sample_request 3 io0 =
     (Inl (Error ''401 Unauthorized''), \<lparr>requests = 2, slept = [450]\<rparr>) \<and>
   is_transient ''fetch failed'' \<and> \<not> is_transient ''401 Unauthorized'' \<and>
   backoff_delay (1 + 1) = 900"
proof -
  have e: "retry_spec sample_api sample_parse sample_request 3 1 io0 =
      (Inl (Error ''401 Unauthorized''), \<lparr>requests = 2, slept = [450]\<rparr>)"
    by code_simp
  have t: "is_transient ''fetch failed''" "\<not> is_transient ''401 Unauthorized''"
    by code_simp+
  have b: "min (450 * 2) (5000::nat) = 900" by simp
  show ?thesis
    using e t b callChatJSON_retry_policy [of 3 sample_api sample_parse sample_request io0
        "Inl (Error ''401 Unauthorized'')" "\<lparr>requests = 2, slept = [450]\<rparr>" 1]
    by simp
qed

subsection \<open>Sessions\<close>

lemma get_prop_defined: "get_prop (at_index xs i) k = Inr v \<Longrightarrow> i < length xs"
  by (cases "i < length xs") (simp_all add: at_index_def get_prop_def)

lemma advance_bounded:
  assumes "0 \<le> maxF" "bounded sessions" "idx s < length (planQuestions s)"
  shows "bounded (snd (advance maxF sessions sid s))"
  using assms by (auto simp: advance_def bounded_def Let_def)

lemma answer_bounded:
  assumes m: "0 \<le> maxF" and b: "bounded sessions"
  shows "bounded (snd (answer_op nts maxF sessions sid answer outcome))"
proof (cases "sessions sid")
  case None
  then show ?thesis using b by (simp add: answer_op_def)
next
  case (Some s)
  with b have s: "0 \<le> followupsLeft s" "idx s \<le> length (planQuestions s)"
    by (auto simp: bounded_def)
  show ?thesis
  proof (cases "get_prop (at_index (planQuestions s) (idx s)) ''skill''")
    case (Inl e)
    with Some b show ?thesis by (simp add: answer_op_def Let_def)
  next
    case (Inr sk)
    then have lt: "idx s < length (planQuestions s)" by (rule get_prop_defined)
    define s1 where "s1 = s\<lparr>transcript := transcript s @
        [\<lparr>qa_skill = toString nts (js_or sk (Str [])),
          qa_question = toString nts (js_or (js_prop (at_index (planQuestions s) (idx s)) ''question'') (Str [])),
          qa_answer = answer\<rparr>]\<rparr>"
    have s1: "idx s1 < length (planQuestions s1)" "0 \<le> followupsLeft s1"
      using lt s by (simp_all add: s1_def)
    have adv: "bounded (snd (advance maxF sessions sid s1))"
      using m b s1(1) by (rule advance_bounded)
    have upd: "bounded (sessions(sid \<mapsto> s1))"
      using b s1 by (auto simp: bounded_def)
    have dec: "0 < followupsLeft s1 \<Longrightarrow> bounded (sessions(sid \<mapsto> s1\<lparr>followupsLeft := followupsLeft s1 - 1\<rparr>))"
      using b s1 by (auto simp: bounded_def)
    have eq: "answer_op nts maxF sessions sid answer outcome =
        (if followupsLeft s1 > 0 \<and> trim answer \<noteq> [] \<and> trim answer \<noteq> ''[SKIPPED]''
         then (case decideFollowup maxF outcome of
                 Inl e \<Rightarrow> (ServerError e, sessions(sid \<mapsto> s1))
               | Inr (need_followup, followup_question) \<Rightarrow>
                   if need_followup \<and> truthy followup_question
                   then (Next (Obj [(''skill'', Str (toString nts (js_or sk (Str [])))),
                                    (''question'', followup_question)]),
                         sessions(sid \<mapsto> s1\<lparr>followupsLeft := followupsLeft s1 - 1\<rparr>))
                   else advance maxF sessions sid s1)
         else advance maxF sessions sid s1)"
      using Some Inr unfolding s1_def by (simp add: answer_op_def Let_def)
    show ?thesis unfolding eq using adv upd dec
      by (auto split: sum.splits prod.splits)
  qed
qed

lemma start_bounded:
  "0 \<le> maxF \<Longrightarrow> bounded sessions \<Longrightarrow>
   bounded (snd (start_op maxF sessions sid now nm loaded outcome))"
  by (auto simp: start_op_def bounded_def split: sum.splits)

lemma auto_answer_same: "snd (auto_answer_op sessions sid outcome) = sessions"
  by (simp add: auto_answer_op_def split: option.splits chat_result.splits)

lemma auto_exercise_same: "snd (auto_exercise_op sessions sid outcome) = sessions"
  by (simp add: auto_exercise_op_def split: option.splits chat_result.splits)

lemma finish_registry:
  "snd (finish_op nts sessions sid o1 o2 o3 w) = sessions \<or>
   snd (finish_op nts sessions sid o1 o2 o3 w) = sessions(sid := None)"
  by (simp add: finish_op_def Let_def split: option.splits sum.splits)

lemma bounded_delete: "bounded sessions \<Longrightarrow> bounded (sessions(sid := None))"
  by (auto simp: bounded_def)

lemma step_bounded:
  assumes "0 \<le> maxF" "bounded sessions"
  shows "bounded (snd (step nts maxF sessions x))"
proof (cases x)
  case (Start sid now nm loaded outcome)
  then show ?thesis using assms by (simp add: start_bounded)
next
  case (Answer sid answer outcome)
  then show ?thesis using assms by (simp add: answer_bounded)
next
  case (AutoAnswer sid outcome)
  then show ?thesis using assms by (simp add: auto_answer_same)
next
  case (AutoExercise sid outcome)
  then show ?thesis using assms by (simp add: auto_exercise_same)
next
  case (Finish sid o1 o2 o3 w)
  then show ?thesis using assms finish_registry [of nts sessions sid o1 o2 o3 w]
    by (auto simp: bounded_delete)
qed

lemma run_bounded:
  "0 \<le> maxF \<Longrightarrow> bounded sessions \<Longrightarrow> bounded (snd (run nts maxF sessions xs))"
proof (induction xs arbitrary: sessions)
  case Nil
  then show ?case by simp
next
  case (Cons x xs)
  obtain r s1 where st: "step nts maxF sessions x = (r, s1)" by (cases "step nts maxF sessions x")
  obtain rs s2 where rn: "run nts maxF s1 xs = (rs, s2)" by (cases "run nts maxF s1 xs")
  have "bounded (snd (step nts maxF sessions x))" using Cons.prems by (rule step_bounded)
  then have "bounded s1" using st by simp
  from Cons.IH [OF Cons.prems(1) this] show ?case using st rn by simp
qed

lemma finish_deletes:
  "finish_op nts sessions sid o1 o2 o3 w = (Finished ns d, sessions') \<Longrightarrow> sessions' sid = None"
  by (auto simp: finish_op_def Let_def split: option.splits sum.splits)

lemma step_absent:
  assumes a: "sessions sid = None" and n: "\<not> (is_start x \<and> op_session x = sid)"
  shows "snd (step nts maxF sessions x) sid = None \<and>
         (op_session x = sid \<longrightarrow> not_found (fst (step nts maxF sessions x)))"
proof (cases x)
  case (Start sid' now nm loaded outcome)
  with n have "sid' \<noteq> sid" by simp
  with Start a show ?thesis by (auto simp: start_op_def split: sum.splits)
next
  case (Answer sid' answer outcome)
  show ?thesis
  proof (cases "sid' = sid")
    case True
    with Answer a show ?thesis by (simp add: answer_op_def)
  next
    case False
    with Answer a show ?thesis
      by (auto simp: answer_op_def advance_def Let_def split: option.splits sum.splits prod.splits)
  qed
next
  case (AutoAnswer sid' outcome)
  with a show ?thesis
    by (cases "sid' = sid") (auto simp: auto_answer_op_def split: option.splits chat_result.splits)
next
  case (AutoExercise sid' outcome)
  with a show ?thesis
    by (cases "sid' = sid") (auto simp: auto_exercise_op_def split: option.splits chat_result.splits)
next
  case (Finish sid' o1 o2 o3 w)
  show ?thesis
  proof (cases "sid' = sid")
    case True
    with Finish a show ?thesis by (simp add: finish_op_def)
  next
    case False
    with Finish a finish_registry [of nts sessions sid' o1 o2 o3 w] show ?thesis by auto
  qed
qed

lemma run_absent:
  "sessions sid = None \<Longrightarrow> \<forall>x \<in> set xs. \<not> (is_start x \<and> op_session x = sid) \<Longrightarrow>
   snd (run nts maxF sessions xs) sid = None \<and>
   (\<forall>i < length xs. op_session (xs ! i) = sid \<longrightarrow> not_found (fst (run nts maxF sessions xs) ! i))"
proof (induction xs arbitrary: sessions)
  case Nil
  then show ?case by simp
next
  case (Cons x xs)
  obtain r s1 where st: "step nts maxF sessions x = (r, s1)" by (cases "step nts maxF sessions x")
  obtain rs s2 where rn: "run nts maxF s1 xs = (rs, s2)" by (cases "run nts maxF s1 xs")
  have nx: "\<not> (is_start x \<and> op_session x = sid)" using Cons.prems(2) by simp
  from step_absent [of sessions sid x nts maxF] Cons.prems(1) nx st
  have 1: "s1 sid = None" "op_session x = sid \<longrightarrow> not_found r" by auto
  have nxs: "\<forall>x \<in> set xs. \<not> (is_start x \<and> op_session x = sid)" using Cons.prems(2) by simp
  from Cons.IH [of s1] 1(1) nxs rn
  have 2: "s2 sid = None" "\<forall>i < length xs. op_session (xs ! i) = sid \<longrightarrow> not_found (rs ! i)" by auto
  show ?case using st rn 1 2 by (auto simp: nth_Cons split: nat.splits)
qed

text \<open>
  C6. With a follow-up maximum that is not negative, after any sequence of requests to a
  server that started with no session every stored session has a budget of at least 0
  and a cursor of at most the length of its plan. When \<open>/api/finish\<close> succeeds for a
  session its identifier is gone from the registry, and it stays gone through every
  later sequence of requests in which no \<open>/api/start\<close> draws the same identifier again:
  each of them that names it is answered with "Session not found".
\<close>

theorem session_bounds_and_finish:
  "(0 \<le> maxF \<and> snd (run nts maxF Map.empty xs) sid = Some s \<longrightarrow>
      0 \<le> followupsLeft s \<and> idx s \<le> length (planQuestions s)) \<and>
   (step nts maxF sessions (Finish sid o1 o2 o3 w) = (Finished ns d, sessions') \<and>
    (\<forall>x \<in> set ys. \<not> (is_start x \<and> op_session x = sid)) \<longrightarrow>
      sessions' sid = None \<and>
      snd (run nts maxF sessions' ys) sid = None \<and>
      (\<forall>i < length ys. op_session (ys ! i) = sid \<longrightarrow>
         not_found (fst (run nts maxF sessions' ys) ! i)))"
proof (intro conjI impI)
  assume h: "0 \<le> maxF \<and> snd (run nts maxF Map.empty xs) sid = Some s"
  have "bounded Map.empty" by (simp add: bounded_def)
  with h have "bounded (snd (run nts maxF Map.empty xs))" by (intro run_bounded) auto
  with h show "0 \<le> followupsLeft s" "idx s \<le> length (planQuestions s)"
    by (auto simp: bounded_def)
next
  assume h: "step nts maxF sessions (Finish sid o1 o2 o3 w) = (Finished ns d, sessions') \<and>
    (\<forall>x \<in> set ys. \<not> (is_start x \<and> op_session x = sid))"
  then have "finish_op nts sessions sid o1 o2 o3 w = (Finished ns d, sessions')" by simp
  then have del: "sessions' sid = None" by (rule finish_deletes)
  from run_absent [of sessions' sid ys nts maxF] del h
  show "sessions' sid = None" "snd (run nts maxF sessions' ys) sid = None"
    "\<forall>i < length ys. op_session (ys ! i) = sid \<longrightarrow> not_found (fst (run nts maxF sessions' ys) ! i)"
    using del by auto
qed

theorem session_bounds_and_finish_witness:
  "(0::int) \<le> 1 \<and>
   snd (run (\<lambda>r. []) 1 Map.empty
     [Start ''s1'' ''t0'' ''Ada'' (Inr sample_matrix)
        (Inr (Obj [(''questions'', Arr [Obj [(''skill'', Str ''A''), (''question'', Str ''Q1'')]])])),
      Answer ''s1'' ''hello''
        (Inr (Obj [(''need_followup'', Bool True), (''followup_question'', Str ''Why?'')]))]) ''s1''
     = Some (sample_session\<lparr>transcript :=
         [\<lparr>qa_skill = ''A'', qa_question = ''Q1'', qa_answer = ''hello''\<rparr>], followupsLeft := 0\<rparr>) \<and>
   (\<exists>ns d. step (\<lambda>r. []) 1 [''s1'' \<mapsto> sample_session]
        (Finish ''s1'' (Inr (Obj [])) (Inr (Obj [])) (Inr (Obj [])) None) = (Finished ns d, Map.empty)) \<and>
   snd (run (\<lambda>r. []) 1 Map.empty
      [Answer ''s1'' ''again'' (Inl (Error ''x'')), AutoAnswer ''s1'' (Content ''a'')]) ''s1'' = None \<and>
   fst (run (\<lambda>r. []) 1 Map.empty
      [Answer ''s1'' ''again'' (Inl (Error ''x'')), AutoAnswer ''s1'' (Content ''a'')]) =
     [BadRequest ''Session not found. Start again.'', BadRequest ''Session not found.'']"
proof -
  let ?xs = "[Start ''s1'' ''t0'' ''Ada'' (Inr sample_matrix)
        (Inr (Obj [(''questions'', Arr [Obj [(''skill'', Str ''A''), (''question'', Str ''Q1'')]])])),
      Answer ''s1'' ''hello''
        (Inr (Obj [(''need_followup'', Bool True), (''followup_question'', Str ''Why?'')]))]"
  let ?s = "sample_session\<lparr>transcript :=
         [\<lparr>qa_skill = ''A'', qa_question = ''Q1'', qa_answer = ''hello''\<rparr>], followupsLeft := 0\<rparr>"
  let ?ys = "[Answer ''s1'' ''again'' (Inl (Error ''x'')), AutoAnswer ''s1'' (Content ''a'')]"
  have 1: "snd (run (\<lambda>r. []) 1 Map.empty ?xs) ''s1'' = Some ?s"
    by (simp add: start_op_def answer_op_def sample_session_def at_index_def get_prop_def js_prop_def
        js_or_def array_or_empty_def decideFollowup_def trim_def is_ws_def Let_def)
  obtain ns d where 2: "step (\<lambda>r. []) 1 [''s1'' \<mapsto> sample_session]
        (Finish ''s1'' (Inr (Obj [])) (Inr (Obj [])) (Inr (Obj [])) None) = (Finished ns d, Map.empty)"
    by (simp add: finish_op_def normalizeAssessorResult_def get_prop_def js_prop_def
        array_or_empty_def Let_def)
  have 3: "\<forall>x \<in> set ?ys. \<not> (is_start x \<and> op_session x = ''s1'')" by simp
  have 4: "fst (run (\<lambda>r. []) 1 Map.empty ?ys) =
     [BadRequest ''Session not found. Start again.'', BadRequest ''Session not found.'']"
    by (simp add: answer_op_def auto_answer_op_def)
  from session_bounds_and_finish [of 1 "\<lambda>r. []" ?xs "''s1''" ?s "[''s1'' \<mapsto> sample_session]"
      "Inr (Obj [])" "Inr (Obj [])" "Inr (Obj [])" None ns d Map.empty ?ys] 1 2 3
  have 5: "0 \<le> followupsLeft ?s \<and> idx ?s \<le> length (planQuestions ?s) \<and>
        snd (run (\<lambda>r. []) 1 Map.empty ?ys) ''s1'' = None"
    by simp
  have e: "\<exists>ns d. step (\<lambda>r. []) 1 [''s1'' \<mapsto> sample_session]
        (Finish ''s1'' (Inr (Obj [])) (Inr (Obj [])) (Inr (Obj [])) None) = (Finished ns d, Map.empty)"
    using 2 by blast
  from 5 have 6: "snd (run (\<lambda>r. []) 1 Map.empty ?ys) ''s1'' = None" by blast
  from 1 e 6 4 show ?thesis by (intro conjI) simp_all
qed

lemma answer_decision_failure:
  assumes "sessions sid = Some s"
    and "get_prop (at_index (planQuestions s) (idx s)) ''skill'' = Inr sk"
    and "0 < followupsLeft s" "trim answer \<noteq> []" "trim answer \<noteq> ''[SKIPPED]''"
    and "decideFollowup maxF outcome = Inl e"
  shows "answer_op nts maxF sessions sid answer outcome =
     (ServerError e,
      sessions(sid \<mapsto> s\<lparr>transcript := transcript s @
        [\<lparr>qa_skill = toString nts (js_or sk (Str [])),
          qa_question = toString nts
            (js_or (js_prop (at_index (planQuestions s) (idx s)) ''question'') (Str [])),
          qa_answer = answer\<rparr>]\<rparr>))"
  using assms by (simp add: answer_op_def Let_def)

text \<open>
  C3. The code does not do this. The handler appends the answer to the transcript before
  it asks for the follow-up decision and takes nothing back when the decision fails: the
  error is sent, the cursor and the budget are as before, and the transcript has one entry
  more. Here a session with an empty transcript is sent the answer \<open>hello\<close> and the
  decision call fails.
\<close>

theorem answer_failed_decision_keeps_entry:
  "answer_op nts 1 [''s1'' \<mapsto> sample_session] ''s1'' ''hello'' (Inl (Error ''fetch failed'')) =
     (ServerError (Error ''fetch failed''),
      [''s1'' \<mapsto> sample_session\<lparr>transcript :=
         [\<lparr>qa_skill = ''A'', qa_question = ''Q1'', qa_answer = ''hello''\<rparr>]\<rparr>]) \<and>
   transcript sample_session = []"
  by (simp add: answer_op_def sample_session_def at_index_def get_prop_def js_prop_def js_or_def
      decideFollowup_def trim_def is_ws_def Let_def)

end
